theory Spec2Isabelle
  imports Main "HOL-Library.AList" "HOL-Library.List_Lexorder" "HOL-Library.Char_ord"
begin

section \<open>The GraphQL mirror of src/graphql/mirror.js\<close>

text \<open>
  A JavaScript string is modelled by a HOL \<open>string\<close>; a character stands for one code
  unit. A JavaScript object used as a dictionary is an association list in the order of
  \<open>Object.keys\<close>; its keys are distinct, which the theorems below assume where they
  need it (\<open>distinct (map fst ...)\<close>). A loop over \<open>Object.keys(o)\<close> that reads
  \<open>o[key]\<close> is a traversal of the pairs of the list. A function that may throw returns
  a value of \<open>error + 'a\<close>, with \<open>Inl\<close> for the error thrown; a function that uses the
  database connection takes it and returns it with its result.
\<close>

subsection \<open>Schema model\<close>

type_synonym typename = string
type_synonym fieldname = string

text \<open>
  Modelled from the spec: the type declarations \<open>Schema\<close>, \<open>NodeType\<close> and
  \<open>FieldType\<close> of src/graphql/schema.js, which mirror.js imports and which is missing.
  The spec (section 3) gives a schema as a mapping from type names to type declarations,
  a declaration as an object type with named fields or a union type with named clauses,
  and a field kind as ID, Primitive, Node(targetType) or Connection(elementType).
  mirror.js reads the discriminants as the strings \<open>"OBJECT"\<close>, \<open>"UNION"\<close>,
  \<open>"ID"\<close>, \<open>"PRIMITIVE"\<close>, \<open>"NODE"\<close> and \<open>"CONNECTION"\<close>. The variants are
  closed, so the \<open>default: throw\<close> branches of mirror.js (typed \<open>empty\<close> in the
  source) have no counterpart.
\<close>

datatype fieldType = ID | PRIMITIVE | NODE typename | CONNECTION typename

datatype nodeType =
    OBJECT "(fieldname \<times> fieldType) list"
  | UNION "(typename \<times> unit) list"

type_synonym schema = "(typename \<times> nodeType) list"

subsection \<open>Identifier safety\<close>

text \<open>The character class \<open>[A-Za-z0-9_]\<close>.\<close>

definition identifierChar :: "char \<Rightarrow> bool" where
  "identifierChar c =
     ((CHR ''A'' \<le> c \<and> c \<le> CHR ''Z'') \<or> (CHR ''a'' \<le> c \<and> c \<le> CHR ''z'') \<or>
      (CHR ''0'' \<le> c \<and> c \<le> CHR ''9'') \<or> c = CHR ''_'')"

text \<open>
  \<open>token.match(/[^A-Za-z0-9_]/)\<close>: the first character outside the class, or
  \<open>null\<close> when there is none.
\<close>

definition matchUnsafe :: "string \<Rightarrow> char option" where
  "matchUnsafe token = find (\<lambda>c. \<not> identifierChar c) token"

definition isSqlSafe :: "string \<Rightarrow> bool" where
  "isSqlSafe token = (matchUnsafe token = None)"

text \<open>The predicate of the specification: a match of \<open>^[A-Za-z0-9_]+$\<close>.\<close>

definition spec_identifier_safe :: "string \<Rightarrow> bool" where
  "spec_identifier_safe s = (s \<noteq> [] \<and> list_all identifierChar s)"

subsection \<open>Schema decomposition\<close>

text \<open>The field \<open>fields\<close> of an entry is \<open>entryFields\<close> here.\<close>

record objectInfo =
  entryFields :: "(fieldname \<times> fieldType) list"
  primitiveFieldNames :: "fieldname list"
  linkFieldNames :: "fieldname list"
  connectionFieldNames :: "fieldname list"

record unionInfo =
  clauses :: "typename list"

record schemaInfo =
  objectTypes :: "(typename \<times> objectInfo) list"
  unionTypes :: "(typename \<times> unionInfo) list"

text \<open>The body of the loop over \<open>Object.keys(type.fields)\<close>: one \<open>push\<close> per field.\<close>

fun addField :: "objectInfo \<Rightarrow> fieldname \<times> fieldType \<Rightarrow> objectInfo" where
  "addField entry (fieldname, ID) = entry"
| "addField entry (fieldname, PRIMITIVE) =
     entry\<lparr>primitiveFieldNames := primitiveFieldNames entry @ [fieldname]\<rparr>"
| "addField entry (fieldname, NODE t) =
     entry\<lparr>linkFieldNames := linkFieldNames entry @ [fieldname]\<rparr>"
| "addField entry (fieldname, CONNECTION t) =
     entry\<lparr>connectionFieldNames := connectionFieldNames entry @ [fieldname]\<rparr>"

definition objectEntry :: "(fieldname \<times> fieldType) list \<Rightarrow> objectInfo" where
  "objectEntry fs =
     foldl addField
       \<lparr>entryFields = fs, primitiveFieldNames = [], linkFieldNames = [],
        connectionFieldNames = []\<rparr> fs"

text \<open>
  The body of the loop over \<open>Object.keys(schema)\<close>. The assignment
  \<open>result.objectTypes[typename] = entry\<close> is \<open>AList.update\<close>: a new key goes to the
  end, an old key keeps its place.
\<close>

fun addType :: "schemaInfo \<Rightarrow> typename \<times> nodeType \<Rightarrow> schemaInfo" where
  "addType result (typename, OBJECT fs) =
     result\<lparr>objectTypes := AList.update typename (objectEntry fs) (objectTypes result)\<rparr>"
| "addType result (typename, UNION cl) =
     result\<lparr>unionTypes :=
       AList.update typename \<lparr>clauses = map fst cl\<rparr> (unionTypes result)\<rparr>"

definition buildSchemaInfo :: "schema \<Rightarrow> schemaInfo" where
  "buildSchemaInfo schema = foldl addType \<lparr>objectTypes = [], unionTypes = []\<rparr> schema"

text \<open>The names of the fields of one kind, in field order.\<close>

definition idFieldNames :: "(fieldname \<times> fieldType) list \<Rightarrow> fieldname list" where
  "idFieldNames fs = map fst (filter (\<lambda>p. snd p = ID) fs)"

subsection \<open>Canonical JSON\<close>

text \<open>\<open>Array.prototype.join\<close>.\<close>

fun join :: "string \<Rightarrow> string list \<Rightarrow> string" where
  "join sep [] = []"
| "join sep [x] = x"
| "join sep (x # y # ys) = x @ sep @ join sep (y # ys)"

text \<open>
  Modelled from the spec: the encoder \<open>json-stable-stringify\<close>, which mirror.js imports
  and which is missing. The spec (section 9) asks for a canonical JSON encoder with sorted
  keys and no insignificant whitespace. Strings are quoted as \<open>JSON.stringify\<close> quotes
  them; the property names \<open>type\<close>, \<open>fields\<close>, \<open>clauses\<close>, \<open>targetType\<close> and
  \<open>elementType\<close> are those of the spec's data model.
\<close>

definition hexDigit :: "nat \<Rightarrow> char" where
  "hexDigit n = (if n < 10 then char_of (48 + n) else char_of (87 + n))"

definition jsonEscape :: "char \<Rightarrow> string" where
  "jsonEscape c =
     (if c = CHR 0x22 then [CHR 0x5C, CHR 0x22]
      else if c = CHR 0x5C then [CHR 0x5C, CHR 0x5C]
      else if c = CHR 0x08 then [CHR 0x5C, CHR ''b'']
      else if c = CHR 0x09 then [CHR 0x5C, CHR ''t'']
      else if c = CHR 0x0A then [CHR 0x5C, CHR ''n'']
      else if c = CHR 0x0C then [CHR 0x5C, CHR ''f'']
      else if c = CHR 0x0D then [CHR 0x5C, CHR ''r'']
      else if c < CHR 0x20 then
        [CHR 0x5C, CHR ''u'', CHR ''0'', CHR ''0'',
         hexDigit (of_char c div 16), hexDigit (of_char c mod 16)]
      else [c])"

definition jsonString :: "string \<Rightarrow> string" where
  "jsonString s = [CHR 0x22] @ concat (map jsonEscape s) @ [CHR 0x22]"

text \<open>An object whose property values are already encoded: the keys are sorted.\<close>

definition jsonObject :: "(string \<times> string) list \<Rightarrow> string" where
  "jsonObject kvs =
     ''{'' @ join '','' (map (\<lambda>(k, v). jsonString k @ '':'' @ v) (sort_key fst kvs)) @ ''}''"

fun stringifyFieldType :: "fieldType \<Rightarrow> string" where
  "stringifyFieldType ID = jsonObject [(''type'', jsonString ''ID'')]"
| "stringifyFieldType PRIMITIVE = jsonObject [(''type'', jsonString ''PRIMITIVE'')]"
| "stringifyFieldType (NODE t) =
     jsonObject [(''type'', jsonString ''NODE''), (''targetType'', jsonString t)]"
| "stringifyFieldType (CONNECTION t) =
     jsonObject [(''type'', jsonString ''CONNECTION''), (''elementType'', jsonString t)]"

fun stringifyNodeType :: "nodeType \<Rightarrow> string" where
  "stringifyNodeType (OBJECT fs) =
     jsonObject
       [(''type'', jsonString ''OBJECT''),
        (''fields'', jsonObject (map (\<lambda>(f, k). (f, stringifyFieldType k)) fs))]"
| "stringifyNodeType (UNION cl) =
     jsonObject
       [(''type'', jsonString ''UNION''),
        (''clauses'', jsonObject (map (\<lambda>(t, u). (t, ''true'')) cl))]"

text \<open>\<open>stringify({version: "MIRROR_v1", schema: this._schema})\<close>.\<close>

definition stringify :: "schema \<Rightarrow> string" where
  "stringify schema =
     jsonObject
       [(''version'', jsonString ''MIRROR_v1''),
        (''schema'', jsonObject (map (\<lambda>(t, d). (t, stringifyNodeType d)) schema))]"

subsection \<open>The relational engine\<close>

text \<open>
  The engine behind \<open>better-sqlite3\<close>, SQLite, is outside the repository. It is
  modelled as far as the statements of mirror.js can meet it: a catalogue of tables and
  indices, the rows of the tables, and one level of transactions. Names are compared as
  SQLite compares them, without regard to ASCII case. A statement is given by its kind
  and its parts, the parts being the source's SQL text: a name may be double-quoted, and
  an item of a table definition is a column definition or a table constraint. The
  statements that mirror.js gives as constant text are written in this form directly;
  the text that it builds at run time is parsed (\<open>prepareCreateTable\<close> below).

  The engine rejects a table or an index whose name is taken, a table with more than
  2000 columns or with two columns of one name, an index on a missing table or column,
  and a row for a missing table or column, with the messages of SQLite. A statement
  that fails changes nothing. The creation of tables and indices takes part in the
  transaction, as in SQLite. \<open>COMMIT\<close> fails, and leaves the transaction open, while
  a deferred constraint is violated; \<open>ROLLBACK\<close> succeeds whenever a transaction is
  open. Constraints on the rows of one statement (\<open>NOT NULL\<close>, \<open>UNIQUE\<close>,
  \<open>CHECK\<close>, keys) are not checked: mirror.js inserts one row only, into a table it
  has just found empty. Failures of the environment (memory, storage, a text or a value
  of more than 1000000000 bytes) are outside the model.
\<close>

datatype sqlval = SqlNull | SqlInteger int | SqlText string

record table =
  columns :: "string list"
  rows :: "sqlval list list"

record sqlindex =
  indexUnique :: bool
  indexTable :: string
  indexColumns :: "string list"

record database =
  tables :: "(string \<times> table) list"
  indices :: "(string \<times> sqlindex) list"

datatype stmt =
    BEGIN
  | COMMIT
  | ROLLBACK
  | CREATE_TABLE bool string "string list"
  | CREATE_INDEX bool string string "string list"
  | SELECT string string
  | INSERT string "string list" "sqlval list"

text \<open>
  The errors: those that mirror.js throws, the engine's with its message, and the
  \<open>TypeError\<close> of \<open>better-sqlite3\<close> for \<open>run\<close> on a statement that returns
  data or \<open>get\<close> on one that does not (\<open>WrongMethod\<close>; mirror.js does neither).
\<close>

datatype error =
    AlreadyInTransaction
  | IncompatibleSchema
  | InvalidObjectTypeName typename
  | InvalidFieldName fieldname
  | InvariantViolation typename
  | SqliteError string
  | WrongMethod

definition foldChar :: "char \<Rightarrow> char" where
  "foldChar c =
     (if CHR ''A'' \<le> c \<and> c \<le> CHR ''Z'' then char_of (of_char c + (32::nat)) else c)"

definition foldName :: "string \<Rightarrow> string" where
  "foldName name = map foldChar name"

text \<open>The name that a token denotes: the text between double quotes, or the first word.\<close>

definition identifierOf :: "string \<Rightarrow> string" where
  "identifierOf tok =
     (case tok of
        [] \<Rightarrow> []
      | c # cs \<Rightarrow>
          if c = CHR 0x22 then takeWhile (\<lambda>d. d \<noteq> CHR 0x22) cs
          else takeWhile (\<lambda>d. d \<noteq> CHR '' '' \<and> d \<noteq> CHR ''('') tok)"

text \<open>The column that an item of a table definition declares, if it is not a constraint.\<close>

definition columnOf :: "string \<Rightarrow> string option" where
  "columnOf item =
     (if take 1 item \<noteq> [CHR 0x22] \<and>
         foldName (identifierOf item) \<in>
           set [''foreign'', ''unique'', ''check'', ''primary'', ''constraint'']
      then None else Some (identifierOf item))"

definition lookupTable :: "database \<Rightarrow> string \<Rightarrow> table option" where
  "lookupTable d name = map_of (map (\<lambda>(n, t). (foldName n, t)) (tables d)) (foldName name)"

definition indexNamed :: "database \<Rightarrow> string \<Rightarrow> bool" where
  "indexNamed d name = (foldName name \<in> set (map (\<lambda>(n, i). foldName n) (indices d)))"

definition hasColumn :: "table \<Rightarrow> string \<Rightarrow> bool" where
  "hasColumn t col = (foldName col \<in> set (map foldName (columns t)))"

definition cell :: "table \<Rightarrow> sqlval list \<Rightarrow> string \<Rightarrow> sqlval" where
  "cell t row col =
     (case map_of (zip (map foldName (columns t)) row) (foldName col) of
        None \<Rightarrow> SqlNull
      | Some v \<Rightarrow> v)"

definition newRow :: "table \<Rightarrow> string list \<Rightarrow> sqlval list \<Rightarrow> sqlval list" where
  "newRow t cols vals =
     map (\<lambda>c. case map_of (zip (map foldName cols) vals) (foldName c) of
                None \<Rightarrow> SqlNull
              | Some v \<Rightarrow> v) (columns t)"

text \<open>A number in decimal, for the messages of the engine.\<close>

fun showNat :: "nat \<Rightarrow> string" where
  "showNat n =
     (if n < 10 then [char_of (48 + n)] else showNat (n div 10) @ [char_of (48 + n mod 10)])"

declare showNat.simps [simp del]

text \<open>
  The columns of a new table, added one by one in the order of the definition, as SQLite
  adds them: a column beyond the 2000th is rejected, then a column whose name is taken.
\<close>

fun addColumns :: "string \<Rightarrow> string list \<Rightarrow> string list \<Rightarrow> error + string list" where
  "addColumns name cols [] = Inr cols"
| "addColumns name cols (c # rest) =
     (if 2000 \<le> length cols then Inl (SqliteError (''too many columns on '' @ name))
      else if foldName c \<in> set (map foldName cols) then
        Inl (SqliteError (''duplicate column name: '' @ c))
      else addColumns name (cols @ [c]) rest)"

text \<open>
  The effect of a statement other than \<open>BEGIN\<close>, \<open>COMMIT\<close> and \<open>ROLLBACK\<close>.
  A double-quoted name that is no column of the table is a string to SQLite, not a
  missing column.
\<close>

fun apply_stmt :: "stmt \<Rightarrow> database \<Rightarrow> error + database" where
  "apply_stmt (CREATE_TABLE ifNotExists tok items) d =
     (let name = identifierOf tok in
      if lookupTable d name \<noteq> None then
        (if ifNotExists then Inr d
         else Inl (SqliteError (''table '' @ tok @ '' already exists'')))
      else if indexNamed d name then
        Inl (SqliteError (''there is already an index named '' @ name))
      else
        (case addColumns name [] (List.map_filter columnOf items) of
           Inl e \<Rightarrow> Inl e
         | Inr cols \<Rightarrow> Inr (d\<lparr>tables := tables d @ [(name, \<lparr>columns = cols, rows = []\<rparr>)]\<rparr>)))"
| "apply_stmt (CREATE_INDEX uniq tok tbl cols) d =
     (let name = identifierOf tok in
      case lookupTable d (identifierOf tbl) of
        None \<Rightarrow> Inl (SqliteError (''no such table: main.'' @ identifierOf tbl))
      | Some t \<Rightarrow>
          if lookupTable d name \<noteq> None then
            Inl (SqliteError (''there is already a table named '' @ name))
          else if indexNamed d name then
            Inl (SqliteError (''index '' @ name @ '' already exists''))
          else
            (case find (\<lambda>c. take 1 c \<noteq> [CHR 0x22] \<and> \<not> hasColumn t (identifierOf c)) cols of
               Some c \<Rightarrow> Inl (SqliteError (''no such column: '' @ identifierOf c))
             | None \<Rightarrow>
                 Inr (d\<lparr>indices := indices d @
                   [(name, \<lparr>indexUnique = uniq, indexTable = identifierOf tbl,
                             indexColumns = map identifierOf cols\<rparr>)]\<rparr>)))"
| "apply_stmt (INSERT tbl cols vals) d =
     (case lookupTable d (identifierOf tbl) of
        None \<Rightarrow> Inl (SqliteError (''no such table: '' @ identifierOf tbl))
      | Some t \<Rightarrow>
          (case find (\<lambda>c. \<not> hasColumn t (identifierOf c)) cols of
             Some c \<Rightarrow>
               Inl (SqliteError (''table '' @ identifierOf tbl @ '' has no column named '' @
                                 identifierOf c))
           | None \<Rightarrow>
               if length vals \<noteq> length cols then
                 Inl (SqliteError (showNat (length vals) @ '' values for '' @
                                   showNat (length cols) @ '' columns''))
               else
                 Inr (d\<lparr>tables :=
                   map (\<lambda>(n, t').
                          if foldName n = foldName (identifierOf tbl)
                          then (n, t'\<lparr>rows := rows t' @ [newRow t' (map identifierOf cols) vals]\<rparr>)
                          else (n, t')) (tables d)\<rparr>)))"
| "apply_stmt (SELECT col tbl) d = Inl WrongMethod"
| "apply_stmt BEGIN d = Inr d"
| "apply_stmt COMMIT d = Inr d"
| "apply_stmt ROLLBACK d = Inr d"

text \<open>The first row of \<open>SELECT col FROM tbl\<close>, reduced to its only column.\<close>

definition selectFirst :: "database \<Rightarrow> string \<Rightarrow> string \<Rightarrow> error + sqlval option" where
  "selectFirst d col tbl =
     (case lookupTable d (identifierOf tbl) of
        None \<Rightarrow> Inl (SqliteError (''no such table: '' @ identifierOf tbl))
      | Some t \<Rightarrow>
          if hasColumn t (identifierOf col) then
            (case rows t of
               [] \<Rightarrow> Inr None
             | row # _ \<Rightarrow> Inr (Some (cell t row (identifierOf col))))
          else if take 1 col = [CHR 0x22] then
            (case rows t of
               [] \<Rightarrow> Inr None
             | row # _ \<Rightarrow> Inr (Some (SqlText (identifierOf col))))
          else Inl (SqliteError (''no such column: '' @ identifierOf col)))"

text \<open>
  A connection: the content of the database as the connection sees it, the content to
  which \<open>ROLLBACK\<close> returns while a transaction is open, the statements executed so
  far, and the number of violations of deferred constraints in the open transaction
  (SQLite's counter of deferred foreign keys). No statement of mirror.js changes that
  number, since none inserts into a table with a foreign key; a callback of
  \<open>_inTransaction\<close> may, by inserting a row that refers to a missing one while
  \<open>PRAGMA defer_foreign_keys\<close> is on.
\<close>

record connection =
  content :: database
  saved :: "database option"
  executed :: "stmt list"
  deferred :: nat

text \<open>The property \<open>db.inTransaction\<close>.\<close>

definition db_inTransaction :: "connection \<Rightarrow> bool" where
  "db_inTransaction db = (saved db \<noteq> None)"

text \<open>
  \<open>db.prepare(sql).run()\<close>. A transaction begins with no violation; \<open>COMMIT\<close>
  with a violation outstanding fails and the transaction stays open.
\<close>

definition run :: "stmt \<Rightarrow> connection \<Rightarrow> (error + unit) \<times> connection" where
  "run s db =
     (let db' = db\<lparr>executed := executed db @ [s]\<rparr> in
      case s of
        BEGIN \<Rightarrow>
          if db_inTransaction db
          then (Inl (SqliteError ''cannot start a transaction within a transaction''), db')
          else (Inr (), db'\<lparr>saved := Some (content db), deferred := 0\<rparr>)
      | COMMIT \<Rightarrow>
          if \<not> db_inTransaction db
          then (Inl (SqliteError ''cannot commit - no transaction is active''), db')
          else if deferred db \<noteq> 0
          then (Inl (SqliteError ''FOREIGN KEY constraint failed''), db')
          else (Inr (), db'\<lparr>saved := None\<rparr>)
      | ROLLBACK \<Rightarrow>
          (case saved db of
             None \<Rightarrow> (Inl (SqliteError ''cannot rollback - no transaction is active''), db')
           | Some d \<Rightarrow> (Inr (), db'\<lparr>content := d, saved := None, deferred := 0\<rparr>))
      | _ \<Rightarrow>
          (case apply_stmt s (content db) of
             Inl e \<Rightarrow> (Inl e, db')
           | Inr d \<Rightarrow> (Inr (), db'\<lparr>content := d\<rparr>)))"

text \<open>\<open>db.prepare(sql).pluck().get()\<close>: \<open>None\<close> is \<open>undefined\<close>, no row.\<close>

definition pluck_get :: "stmt \<Rightarrow> connection \<Rightarrow> (error + sqlval option) \<times> connection" where
  "pluck_get s db =
     (let db' = db\<lparr>executed := executed db @ [s]\<rparr> in
      case s of
        SELECT col tbl \<Rightarrow> (selectFirst (content db) col tbl, db')
      | _ \<Rightarrow> (Inl WrongMethod, db'))"

text \<open>
  \<open>db.prepare(sql)\<close> for a text of the form \<open>CREATE TABLE name (item, ..., item)\<close>,
  the one that \<open>_initialize\<close> builds at run time. The items are separated by the
  commas that are outside parentheses and outside double quotes; the blanks after such
  a comma belong to no item. The arguments of \<open>splitItems\<close> are the depth of
  parentheses, whether a double quote is open, the item read so far, and the text left.
\<close>

fun splitItems :: "nat \<Rightarrow> bool \<Rightarrow> string \<Rightarrow> string \<Rightarrow> string list" where
  "splitItems depth quoted cur [] = [cur]"
| "splitItems depth quoted cur (c # cs) =
     (if quoted then splitItems depth (c \<noteq> CHR 0x22) (cur @ [c]) cs
      else if c = CHR 0x22 then splitItems depth True (cur @ [c]) cs
      else if c = CHR ''('' then splitItems (Suc depth) False (cur @ [c]) cs
      else if c = CHR '')'' then splitItems (depth - 1) False (cur @ [c]) cs
      else if c = CHR '','' \<and> depth = 0 then cur # splitItems 0 False [] cs
      else if c = CHR '' '' \<and> cur = [] then splitItems depth False [] cs
      else splitItems depth False (cur @ [c]) cs)"

text \<open>The name at the head of a text, as it is written, and the text after it.\<close>

definition nameToken :: "string \<Rightarrow> string \<times> string" where
  "nameToken s =
     (if take 1 s = [CHR 0x22] then
        (CHR 0x22 # takeWhile (\<lambda>c. c \<noteq> CHR 0x22) (drop 1 s) @ [CHR 0x22],
         drop 1 (dropWhile (\<lambda>c. c \<noteq> CHR 0x22) (drop 1 s)))
      else
        (takeWhile (\<lambda>c. c \<noteq> CHR '' '' \<and> c \<noteq> CHR ''('') s,
         dropWhile (\<lambda>c. c \<noteq> CHR '' '' \<and> c \<noteq> CHR ''('') s))"

definition parseCreateTable :: "string \<Rightarrow> (string \<times> string list) option" where
  "parseCreateTable sql =
     (if take 13 sql \<noteq> ''CREATE TABLE '' then None
      else
        let (tok, body) = nameToken (drop 13 sql) in
        if take 2 body = '' ('' \<and> drop 2 body \<noteq> [] \<and> last body = CHR '')''
        then Some (tok, splitItems 0 False [] (butlast (drop 2 body)))
        else None)"

text \<open>
  A text of another form is outside the model (SQLite reports the token at which its
  parser stops); the texts that \<open>_initialize\<close> builds have this form.
\<close>

definition prepareCreateTable :: "string \<Rightarrow> error + stmt" where
  "prepareCreateTable sql =
     (case parseCreateTable sql of
        None \<Rightarrow> Inl (SqliteError ''syntax error'')
      | Some (tok, items) \<Rightarrow> Inr (CREATE_TABLE False tok items))"

definition emptyDatabase :: database where
  "emptyDatabase = \<lparr>tables = [], indices = []\<rparr>"

text \<open>A connection to a fresh database.\<close>

definition freshConnection :: connection where
  "freshConnection = \<lparr>content = emptyDatabase, saved = None, executed = [], deferred = 0\<rparr>"

subsection \<open>The transaction wrapper\<close>

text \<open>
  \<open>_inTransaction\<close>. The callback takes the connection and returns its result, or the
  error it throws, with the connection as it leaves it. The last step is the
  \<open>finally\<close> block, which runs on every path that entered the \<open>try\<close>; an error thrown
  there replaces the outcome of the \<open>try\<close>.
\<close>

definition inTransaction ::
  "connection \<Rightarrow> (connection \<Rightarrow> (error + 'r) \<times> connection) \<Rightarrow> (error + 'r) \<times> connection"
where
  "inTransaction db fn =
     (if db_inTransaction db then (Inl AlreadyInTransaction, db)
      else
        let (outcome, db1) =
          (case run BEGIN db of
             (Inl e, dbB) \<Rightarrow> (Inl e, dbB)
           | (Inr u, dbB) \<Rightarrow>
               (case fn dbB of
                  (Inl e, dbF) \<Rightarrow> (Inl e, dbF)
                | (Inr result, dbF) \<Rightarrow>
                    if db_inTransaction dbF then
                      (case run COMMIT dbF of
                         (Inl e, dbC) \<Rightarrow> (Inl e, dbC)
                       | (Inr u', dbC) \<Rightarrow> (Inr result, dbC))
                    else (Inr result, dbF)))
        in
          if db_inTransaction db1 then
            (case run ROLLBACK db1 of
               (Inl e, db2) \<Rightarrow> (Inl e, db2)
             | (Inr u, db2) \<Rightarrow> (outcome, db2))
          else (outcome, db1))"

subsection \<open>Initialization\<close>

definition createMeta :: stmt where
  "createMeta =
     CREATE_TABLE True ''meta'' [''zero INTEGER PRIMARY KEY'', ''schema TEXT NOT NULL'']"

definition selectMeta :: stmt where
  "selectMeta = SELECT ''schema'' ''meta''"

definition insertMeta :: "string \<Rightarrow> stmt" where
  "insertMeta blob = INSERT ''meta'' [''zero'', ''schema''] [SqlInteger 0, SqlText blob]"

text \<open>The statements of \<open>structuralTables\<close>, in the order of the source.\<close>

definition structuralTables :: "stmt list" where
  "structuralTables =
     [CREATE_TABLE False ''updates''
        [''rowid INTEGER PRIMARY KEY'', ''time_epoch_millis INTEGER NOT NULL''],
      CREATE_TABLE False ''objects''
        [''id TEXT NOT NULL PRIMARY KEY'', ''typename TEXT NOT NULL'',
         ''last_update INTEGER'', ''FOREIGN KEY(last_update) REFERENCES updates(rowid)''],
      CREATE_TABLE False ''links''
        [''rowid INTEGER PRIMARY KEY'', ''parent_id TEXT NOT NULL'',
         ''fieldname TEXT NOT NULL'', ''child_id TEXT'',
         ''UNIQUE(parent_id, fieldname)'',
         ''FOREIGN KEY(parent_id) REFERENCES objects(id)'',
         ''FOREIGN KEY(child_id) REFERENCES objects(id)''],
      CREATE_INDEX True ''idx_links__parent_id__fieldname'' ''links''
        [''parent_id'', ''fieldname''],
      CREATE_TABLE False ''connections''
        [''rowid INTEGER PRIMARY KEY'', ''object_id TEXT NOT NULL'',
         ''fieldname TEXT NOT NULL'', ''last_update INTEGER'', ''total_count INTEGER'',
         ''has_next_page BOOLEAN'', ''end_cursor TEXT'',
         ''CHECK((last_update IS NULL) = (total_count IS NULL))'',
         ''CHECK((last_update IS NULL) = (has_next_page IS NULL))'',
         ''CHECK((last_update IS NULL) <= (end_cursor IS NULL))'',
         ''UNIQUE(object_id, fieldname)'',
         ''FOREIGN KEY(object_id) REFERENCES objects(id)'',
         ''FOREIGN KEY(last_update) REFERENCES updates(rowid)''],
      CREATE_INDEX True ''idx_connections__object_id__fieldname'' ''connections''
        [''object_id'', ''fieldname''],
      CREATE_TABLE False ''connection_entries''
        [''rowid INTEGER PRIMARY KEY'', ''connection_id INTEGER NOT NULL'',
         ''idx INTEGER NOT NULL'', ''child_id TEXT'',
         ''UNIQUE(connection_id, idx)'',
         ''FOREIGN KEY(connection_id) REFERENCES connections(rowid)'',
         ''FOREIGN KEY(child_id) REFERENCES objects(id)''],
      CREATE_INDEX False ''idx_connection_entries__connection_id'' ''connection_entries''
        [''connection_id'']]"

text \<open>\<open>for (const sql of structuralTables) db.prepare(sql).run()\<close>.\<close>

fun runAll :: "stmt list \<Rightarrow> connection \<Rightarrow> (error + unit) \<times> connection" where
  "runAll [] db = (Inr (), db)"
| "runAll (sql # rest) db =
     (case run sql db of
        (Inl e, db') \<Rightarrow> (Inl e, db')
      | (Inr u, db') \<Rightarrow> runAll rest db')"

definition primitivesTableName :: "typename \<Rightarrow> error + string" where
  "primitivesTableName typename =
     (if \<not> isSqlSafe typename then Inl (InvariantViolation typename)
      else Inr (''\"primitives_'' @ typename @ ''\"''))"

text \<open>
  The loop over \<open>Object.keys(nodeType.fields)\<close> of \<open>_initialize\<close>; the second argument
  is \<open>primitiveFieldNames\<close> so far.
\<close>

fun gatherPrimitiveFieldNames ::
  "(fieldname \<times> fieldType) list \<Rightarrow> fieldname list \<Rightarrow> error + fieldname list"
where
  "gatherPrimitiveFieldNames [] names = Inr names"
| "gatherPrimitiveFieldNames ((fieldname, ID) # rest) names =
     gatherPrimitiveFieldNames rest names"
| "gatherPrimitiveFieldNames ((fieldname, NODE t) # rest) names =
     gatherPrimitiveFieldNames rest names"
| "gatherPrimitiveFieldNames ((fieldname, CONNECTION t) # rest) names =
     gatherPrimitiveFieldNames rest names"
| "gatherPrimitiveFieldNames ((fieldname, PRIMITIVE) # rest) names =
     (if \<not> isSqlSafe fieldname then Inl (InvalidFieldName fieldname)
      else gatherPrimitiveFieldNames rest (names @ [fieldname]))"

text \<open>The array that \<open>_initialize\<close> joins into \<open>tableSpec\<close>.\<close>

definition tableSpecItems :: "fieldname list \<Rightarrow> string list" where
  "tableSpecItems names =
     [''id TEXT NOT NULL PRIMARY KEY''] @
     map (\<lambda>fieldname. ''\"'' @ fieldname @ ''\"'') names @
     [''FOREIGN KEY(id) REFERENCES objects(id)'']"

definition tableSpec :: "fieldname list \<Rightarrow> string" where
  "tableSpec names = join '', '' (tableSpecItems names)"

text \<open>The text \<open>`CREATE TABLE ${tableName} (${tableSpec})`\<close>.\<close>

definition createTableText :: "string \<Rightarrow> string \<Rightarrow> string" where
  "createTableText tableName spec = ''CREATE TABLE '' @ tableName @ '' ('' @ spec @ '')''"

text \<open>The loop over \<open>Object.keys(schema)\<close> of \<open>_initialize\<close>.\<close>

fun createPrimitivesTables :: "schema \<Rightarrow> connection \<Rightarrow> (error + unit) \<times> connection" where
  "createPrimitivesTables [] db = (Inr (), db)"
| "createPrimitivesTables ((typename, UNION cl) # rest) db = createPrimitivesTables rest db"
| "createPrimitivesTables ((typename, OBJECT fs) # rest) db =
     (if \<not> isSqlSafe typename then (Inl (InvalidObjectTypeName typename), db)
      else
        (case gatherPrimitiveFieldNames fs [] of
           Inl e \<Rightarrow> (Inl e, db)
         | Inr names \<Rightarrow>
             (case primitivesTableName typename of
                Inl e \<Rightarrow> (Inl e, db)
              | Inr tableName \<Rightarrow>
                  (case prepareCreateTable (createTableText tableName (tableSpec names)) of
                     Inl e \<Rightarrow> (Inl e, db)
                   | Inr sql \<Rightarrow>
                       (case run sql db of
                          (Inl e, db') \<Rightarrow> (Inl e, db')
                        | (Inr u, db') \<Rightarrow> createPrimitivesTables rest db')))))"

text \<open>The callback that \<open>_initialize\<close> passes to \<open>_inTransaction\<close>.\<close>

definition initializeBody :: "string \<Rightarrow> schema \<Rightarrow> connection \<Rightarrow> (error + unit) \<times> connection"
where
  "initializeBody blob schema db =
     (case run createMeta db of
        (Inl e, db1) \<Rightarrow> (Inl e, db1)
      | (Inr u, db1) \<Rightarrow>
          (case pluck_get selectMeta db1 of
             (Inl e, db2) \<Rightarrow> (Inl e, db2)
           | (Inr existingBlob, db2) \<Rightarrow>
               if existingBlob = Some (SqlText blob) then (Inr (), db2)
               else if existingBlob \<noteq> None then (Inl IncompatibleSchema, db2)
               else
                 (case run (insertMeta blob) db2 of
                    (Inl e, db3) \<Rightarrow> (Inl e, db3)
                  | (Inr u', db3) \<Rightarrow>
                      (case runAll structuralTables db3 of
                         (Inl e, db4) \<Rightarrow> (Inl e, db4)
                       | (Inr u'', db4) \<Rightarrow> createPrimitivesTables schema db4))))"

definition initialize :: "connection \<Rightarrow> schema \<Rightarrow> (error + unit) \<times> connection" where
  "initialize db schema = inTransaction db (initializeBody (stringify schema) schema)"

subsection \<open>Example schemas\<close>

text \<open>Scenario S2 of the specification.\<close>

definition issueFields :: "(fieldname \<times> fieldType) list" where
  "issueFields =
     [(''id'', ID), (''title'', PRIMITIVE), (''author'', NODE ''User''),
      (''comments'', CONNECTION ''Comment'')]"

definition issueSchema :: schema where
  "issueSchema = [(''Issue'', OBJECT issueFields)]"

text \<open>An object type with two ID fields and one with none.\<close>

definition twoIdFields :: "(fieldname \<times> fieldType) list" where
  "twoIdFields = [(''id'', ID), (''login'', PRIMITIVE), (''nodeId'', ID)]"

definition twoIdSchema :: schema where
  "twoIdSchema = [(''User'', OBJECT twoIdFields), (''Bot'', OBJECT [(''name'', PRIMITIVE)])]"

subsection \<open>Predicates of the claims about initialization\<close>

text \<open>
  Every object type name and every primitive field name of the schema passes
  \<open>isSqlSafe\<close>; the primitive field names of an object type are those of its entry
  in the decomposition, in field order.
\<close>

fun safeNames :: "schema \<Rightarrow> bool" where
  "safeNames [] = True"
| "safeNames ((typename, OBJECT fs) # rest) =
     (isSqlSafe typename \<and> list_all isSqlSafe (primitiveFieldNames (objectEntry fs)) \<and>
      safeNames rest)"
| "safeNames ((typename, UNION cl) # rest) = safeNames rest"

text \<open>The errors that \<open>_initialize\<close> throws for a name that fails \<open>isSqlSafe\<close>.\<close>

fun identifierUnsafeError :: "error \<Rightarrow> bool" where
  "identifierUnsafeError (InvalidObjectTypeName t) = (\<not> isSqlSafe t)"
| "identifierUnsafeError (InvalidFieldName f) = (\<not> isSqlSafe f)"
| "identifierUnsafeError e = False"

text \<open>
  The precondition of \<open>initialize\<close> (section 4.2 of the specification): the database
  is empty, or has been initialized by this module for the same schema. The first is
  taken here as: the database holds no \<open>meta\<close> row, which an empty database does
  not; the second as: the content is the one that a call of \<open>initialize\<close> for the
  schema has left, when it returned normally on a database of the first kind.
\<close>

definition holdsNoMetaRow :: "database \<Rightarrow> bool" where
  "holdsNoMetaRow d =
     (case selectFirst d ''schema'' ''meta'' of
        Inl e \<Rightarrow> True
      | Inr None \<Rightarrow> True
      | Inr (Some v) \<Rightarrow> False)"

definition previouslyInitialized :: "schema \<Rightarrow> database \<Rightarrow> bool" where
  "previouslyInitialized S d =
     (\<exists>db0 db1. holdsNoMetaRow (content db0) \<and> initialize db0 S = (Inr (), db1) \<and>
        content db1 = d)"



text \<open>Schemas with unsafe names.\<close>

definition unsafeSchema :: schema where
  "unsafeSchema = [(''Issue; DROP TABLE objects;--'', OBJECT [(''id'', ID)])]"

definition unionSchema :: schema where
  "unionSchema = [(''Actor'', UNION [(''User'', ()), (''Bot'', ())])]"





text \<open>
  A callback of \<open>_inTransaction\<close> that creates a table, leaves one deferred
  constraint violated (as the insertion of a link to a missing object does while
  \<open>PRAGMA defer_foreign_keys\<close> is on) and returns a value.
\<close>

definition violatingCallback :: "connection \<Rightarrow> (error + string) \<times> connection" where
  "violatingCallback db =
     (case run createMeta db of
        (r, db1) \<Rightarrow> (Inr ''done'', db1\<lparr>deferred := deferred db1 + 1\<rparr>))"

subsection \<open>Notions used in the proofs\<close>

text \<open>
  A database grows when tables and indices are added at the end of its catalogue and
  nothing else changes. A connection follows another when it is in the same transaction
  with the same violations of deferred constraints, has executed more statements, and
  its database has grown.
\<close>

definition grows :: "database \<Rightarrow> database \<Rightarrow> bool" where
  "grows d d' = ((\<exists>ts. tables d' = tables d @ ts) \<and> (\<exists>ixs. indices d' = indices d @ ixs))"

definition follows :: "connection \<Rightarrow> connection \<Rightarrow> bool" where
  "follows db db' =
     (saved db' = saved db \<and> deferred db' = deferred db \<and>
      (\<exists>rest. executed db' = executed db @ rest) \<and>
      grows (content db) (content db'))"

text \<open>The statements that create a table or an index, and those that are not
  \<open>BEGIN\<close>, \<open>COMMIT\<close> or \<open>ROLLBACK\<close>.\<close>

fun isCreate :: "stmt \<Rightarrow> bool" where
  "isCreate (CREATE_TABLE i n its) = True"
| "isCreate (CREATE_INDEX u n t cs) = True"
| "isCreate s = False"

fun isData :: "stmt \<Rightarrow> bool" where
  "isData BEGIN = False"
| "isData COMMIT = False"
| "isData ROLLBACK = False"
| "isData s = True"

text \<open>
  The part of the callback of \<open>_initialize\<close> after the \<open>INSERT\<close>: the structural
  statements, then the loop over the schema.
\<close>

definition createTables :: "schema \<Rightarrow> connection \<Rightarrow> (error + unit) \<times> connection" where
  "createTables S db =
     (case runAll structuralTables db of
        (Inl e, db4) \<Rightarrow> (Inl e, db4)
      | (Inr u, db4) \<Rightarrow> createPrimitivesTables S db4)"

text \<open>The statement that \<open>_initialize\<close> executes for an object type.\<close>

definition createPrimitives :: "typename \<Rightarrow> (fieldname \<times> fieldType) list \<Rightarrow> stmt" where
  "createPrimitives T fs =
     CREATE_TABLE False (''\"primitives_'' @ T @ ''\"'')
       (tableSpecItems (primitiveFieldNames (objectEntry fs)))"

text \<open>
  Two connections with the same content, in the same transaction; they may differ in
  the statements executed and in the violations of deferred constraints.
\<close>

definition sameData :: "connection \<Rightarrow> connection \<Rightarrow> bool" where
  "sameData a b = (content a = content b \<and> saved a = saved b)"

section \<open>Properties of the decomposition\<close>

lemma identifierChar_code [simp]:
  "identifierChar CHR ''_''" "\<not> identifierChar CHR 0x22" "\<not> identifierChar CHR '' ''"
  by (simp_all add: identifierChar_def)

lemma isSqlSafe_list_all: "isSqlSafe s = list_all identifierChar s"
  by (induction s) (auto simp: isSqlSafe_def matchUnsafe_def)

lemma isSqlSafe_Nil [simp]: "isSqlSafe []"
  by (simp add: isSqlSafe_list_all)

lemma isSqlSafe_Cons [simp]: "isSqlSafe (c # s) = (identifierChar c \<and> isSqlSafe s)"
  by (simp add: isSqlSafe_list_all)

lemma foldl_addField_fields: "entryFields (foldl addField e fs) = entryFields e"
proof (induction fs arbitrary: e)
  case Nil
  show ?case by simp
next
  case (Cons p fs)
  obtain f k where p: "p = (f, k)" by (cases p)
  show ?case using Cons.IH [of "addField e p"] by (cases k) (simp_all add: p)
qed

lemma foldl_addField_primitive:
  "primitiveFieldNames (foldl addField e fs) =
     primitiveFieldNames e @ map fst (filter (\<lambda>p. snd p = PRIMITIVE) fs)"
proof (induction fs arbitrary: e)
  case Nil
  show ?case by simp
next
  case (Cons p fs)
  obtain f k where p: "p = (f, k)" by (cases p)
  show ?case using Cons.IH [of "addField e p"] by (cases k) (simp_all add: p)
qed

lemma foldl_addField_link:
  "linkFieldNames (foldl addField e fs) =
     linkFieldNames e @ map fst (filter (\<lambda>p. \<exists>t. snd p = NODE t) fs)"
proof (induction fs arbitrary: e)
  case Nil
  show ?case by simp
next
  case (Cons p fs)
  obtain f k where p: "p = (f, k)" by (cases p)
  show ?case using Cons.IH [of "addField e p"] by (cases k) (simp_all add: p)
qed

lemma foldl_addField_connection:
  "connectionFieldNames (foldl addField e fs) =
     connectionFieldNames e @ map fst (filter (\<lambda>p. \<exists>t. snd p = CONNECTION t) fs)"
proof (induction fs arbitrary: e)
  case Nil
  show ?case by simp
next
  case (Cons p fs)
  obtain f k where p: "p = (f, k)" by (cases p)
  show ?case using Cons.IH [of "addField e p"] by (cases k) (simp_all add: p)
qed

lemma objectEntry_simps:
  "entryFields (objectEntry fs) = fs"
  "primitiveFieldNames (objectEntry fs) = map fst (filter (\<lambda>p. snd p = PRIMITIVE) fs)"
  "linkFieldNames (objectEntry fs) = map fst (filter (\<lambda>p. \<exists>t. snd p = NODE t) fs)"
  "connectionFieldNames (objectEntry fs) =
     map fst (filter (\<lambda>p. \<exists>t. snd p = CONNECTION t) fs)"
  by (simp_all add: objectEntry_def foldl_addField_fields foldl_addField_primitive
      foldl_addField_link foldl_addField_connection)

text \<open>With distinct field names, a name has one kind only.\<close>

lemma distinct_fst_unique:
  "distinct (map fst fs) \<Longrightarrow> (f, k) \<in> set fs \<Longrightarrow> (f, k') \<in> set fs \<Longrightarrow> k = k'"
  by (induction fs) (auto simp: image_iff)

lemma foldl_addType_other:
  "T \<notin> fst ` set s \<Longrightarrow>
     map_of (objectTypes (foldl addType r s)) T = map_of (objectTypes r) T"
proof (induction s arbitrary: r)
  case Nil
  show ?case by simp
next
  case (Cons p s)
  obtain n d where p: "p = (n, d)" by (cases p)
  from Cons.prems have ne: "n \<noteq> T" and rest: "T \<notin> fst ` set s" by (auto simp: p)
  have "map_of (objectTypes (addType r p)) T = map_of (objectTypes r) T"
    using ne by (cases d) (simp_all add: p update_conv')
  with Cons.IH [OF rest, of "addType r p"] show ?case by simp
qed

lemma foldl_addType_object:
  "distinct (map fst s) \<Longrightarrow> (T, OBJECT fs) \<in> set s \<Longrightarrow>
     map_of (objectTypes (foldl addType r s)) T = Some (objectEntry fs)"
proof (induction s arbitrary: r)
  case Nil
  then show ?case by simp
next
  case (Cons p s)
  obtain n d where p: "p = (n, d)" by (cases p)
  show ?case
  proof (cases "p = (T, OBJECT fs)")
    case True
    with Cons.prems have "T \<notin> fst ` set s" by auto
    from foldl_addType_other [OF this, of "addType r p"] True
    show ?thesis by (simp add: update_conv')
  next
    case False
    with Cons.prems have "(T, OBJECT fs) \<in> set s" "distinct (map fst s)" by auto
    from Cons.IH [OF this(2) this(1), of "addType r p"] show ?thesis by simp
  qed
qed

lemma buildSchemaInfo_object:
  "distinct (map fst s) \<Longrightarrow> (T, OBJECT fs) \<in> set s \<Longrightarrow>
     map_of (objectTypes (buildSchemaInfo s)) T = Some (objectEntry fs)"
  by (simp add: buildSchemaInfo_def foldl_addType_object)

lemma filter_kind_disjoint:
  "distinct (map fst fs) \<Longrightarrow> (\<And>p. P p \<Longrightarrow> \<not> Q p) \<Longrightarrow>
     set (map fst (filter P fs)) \<inter> set (map fst (filter Q fs)) = {}"
proof (rule ccontr)
  assume d: "distinct (map fst fs)" and ex: "\<And>p. P p \<Longrightarrow> \<not> Q p"
    and ne: "set (map fst (filter P fs)) \<inter> set (map fst (filter Q fs)) \<noteq> {}"
  from ne obtain f where "f \<in> set (map fst (filter P fs))" "f \<in> set (map fst (filter Q fs))"
    by blast
  then obtain k k' where a: "(f, k) \<in> set fs" "P (f, k)" and b: "(f, k') \<in> set fs" "Q (f, k')"
    by auto
  from distinct_fst_unique [OF d a(1) b(1)] have "k = k'" .
  with a(2) b(2) ex show False by blast
qed

lemma kinds_cover:
  "set (map fst (filter (\<lambda>p. snd p = PRIMITIVE) fs)) \<union>
   set (map fst (filter (\<lambda>p. \<exists>t. snd p = NODE t) fs)) \<union>
   set (map fst (filter (\<lambda>p. \<exists>t. snd p = CONNECTION t) fs)) \<union>
   set (map fst (filter (\<lambda>p. snd p = ID) fs)) = set (map fst fs)"
proof
  show "set (map fst (filter (\<lambda>p. snd p = PRIMITIVE) fs)) \<union>
   set (map fst (filter (\<lambda>p. \<exists>t. snd p = NODE t) fs)) \<union>
   set (map fst (filter (\<lambda>p. \<exists>t. snd p = CONNECTION t) fs)) \<union>
   set (map fst (filter (\<lambda>p. snd p = ID) fs)) \<subseteq> set (map fst fs)"
    by auto
next
  show "set (map fst fs) \<subseteq> set (map fst (filter (\<lambda>p. snd p = PRIMITIVE) fs)) \<union>
   set (map fst (filter (\<lambda>p. \<exists>t. snd p = NODE t) fs)) \<union>
   set (map fst (filter (\<lambda>p. \<exists>t. snd p = CONNECTION t) fs)) \<union>
   set (map fst (filter (\<lambda>p. snd p = ID) fs))"
  proof
    fix f assume "f \<in> set (map fst fs)"
    then obtain k where m: "(f, k) \<in> set fs" by auto
    show "f \<in> set (map fst (filter (\<lambda>p. snd p = PRIMITIVE) fs)) \<union>
      set (map fst (filter (\<lambda>p. \<exists>t. snd p = NODE t) fs)) \<union>
      set (map fst (filter (\<lambda>p. \<exists>t. snd p = CONNECTION t) fs)) \<union>
      set (map fst (filter (\<lambda>p. snd p = ID) fs))"
      using m by (cases k) force+
  qed
qed

section \<open>Properties of the engine and of initialization\<close>

lemma grows_refl [simp]: "grows d d"
  by (simp add: grows_def)

lemma grows_trans: "grows a b \<Longrightarrow> grows b c \<Longrightarrow> grows a c"
  by (auto simp: grows_def)

lemma follows_refl [simp]: "follows db db"
  by (simp add: follows_def)

lemma follows_trans: "follows a b \<Longrightarrow> follows b c \<Longrightarrow> follows a c"
  by (auto simp: follows_def intro: grows_trans)

lemma grows_lookupTable:
  "grows d d' \<Longrightarrow> lookupTable d n = Some t \<Longrightarrow> lookupTable d' n = Some t"
  by (auto simp: grows_def lookupTable_def)

lemma apply_create_grows:
  "isCreate s \<Longrightarrow> apply_stmt s d = Inr d' \<Longrightarrow> grows d d'"
  by (cases s) (auto simp: grows_def Let_def split: if_splits option.splits sum.splits)

lemma prepareCreateTable_isCreate: "prepareCreateTable sql = Inr s \<Longrightarrow> isCreate s"
  by (auto simp: prepareCreateTable_def split: option.splits)

lemma run_data:
  "isData s \<Longrightarrow> run s db =
     (case apply_stmt s (content db) of
        Inl e \<Rightarrow> (Inl e, db\<lparr>executed := executed db @ [s]\<rparr>)
      | Inr d \<Rightarrow> (Inr (), db\<lparr>executed := executed db @ [s], content := d\<rparr>))"
  by (cases s) (auto simp add: run_def Let_def simp del: apply_stmt.simps)

lemma isCreate_isData: "isCreate s \<Longrightarrow> isData s"
  by (cases s) simp_all

lemma run_create_follows: "isCreate s \<Longrightarrow> follows db (snd (run s db))"
proof -
  assume c: "isCreate s"
  show ?thesis
  proof (cases "apply_stmt s (content db)")
    case (Inl e)
    then show ?thesis by (simp add: run_data [OF isCreate_isData [OF c]] follows_def)
  next
    case (Inr d)
    with c have "grows (content db) d" by (rule apply_create_grows)
    with Inr show ?thesis by (simp add: run_data [OF isCreate_isData [OF c]] follows_def)
  qed
qed

lemma runAll_follows: "\<forall>s \<in> set ss. isCreate s \<Longrightarrow> follows db (snd (runAll ss db))"
proof (induction ss arbitrary: db)
  case Nil
  show ?case by simp
next
  case (Cons s ss)
  obtain r db1 where r: "run s db = (r, db1)" by (cases "run s db")
  have f1: "follows db db1" using run_create_follows [of s db] Cons.prems r by simp
  show ?case
  proof (cases r)
    case (Inl e)
    with r f1 show ?thesis by simp
  next
    case (Inr u)
    have "follows db1 (snd (runAll ss db1))" using Cons.IH Cons.prems by simp
    with f1 have "follows db (snd (runAll ss db1))" by (rule follows_trans)
    with r Inr show ?thesis by simp
  qed
qed

lemma createPrimitivesTables_follows: "follows db (snd (createPrimitivesTables S db))"
proof (induction S db rule: createPrimitivesTables.induct)
  case (1 db)
  show ?case by simp
next
  case (2 typename cl rest db)
  then show ?case by simp
next
  case (3 typename fs rest db)
  show ?case
  proof (cases "isSqlSafe typename")
    case False
    then show ?thesis by simp
  next
    case safe: True
    show ?thesis
    proof (cases "gatherPrimitiveFieldNames fs []")
      case (Inl e)
      with safe show ?thesis by simp
    next
      case (Inr names)
      let ?t = "createTableText (''\"primitives_'' @ typename @ ''\"'') (tableSpec names)"
      show ?thesis
      proof (cases "prepareCreateTable ?t")
        case (Inl e)
        with safe Inr show ?thesis by (simp add: primitivesTableName_def)
      next
        case sql: (Inr sql)
        obtain r db1 where r: "run sql db = (r, db1)" by (cases "run sql db")
        have f1: "follows db db1"
          using run_create_follows [OF prepareCreateTable_isCreate [OF sql], of db] r by simp
        show ?thesis
        proof (cases r)
          case (Inl e)
          with safe Inr sql r f1 show ?thesis by (simp add: primitivesTableName_def)
        next
          case u: (Inr u)
          have "follows db1 (snd (createPrimitivesTables rest db1))"
            using "3.IH" [OF _ Inr _ sql _ u] safe r by (simp add: primitivesTableName_def)
          with f1 have "follows db (snd (createPrimitivesTables rest db1))"
            by (rule follows_trans)
          with safe Inr sql r u show ?thesis by (simp add: primitivesTableName_def)
        qed
      qed
    qed
  qed
qed

lemma foldName_literals [simp]:
  "foldName ''meta'' = ''meta''" "foldName ''schema'' = ''schema''" "foldName ''zero'' = ''zero''"
  by (simp_all add: foldName_def foldChar_def)

lemma identifierOf_literals [simp]:
  "identifierOf ''meta'' = ''meta''" "identifierOf ''schema'' = ''schema''"
  "identifierOf ''zero'' = ''zero''"
  by (simp_all add: identifierOf_def)

lemma columnOf_createMeta [simp]:
  "columnOf ''zero INTEGER PRIMARY KEY'' = Some ''zero''"
  "columnOf ''schema TEXT NOT NULL'' = Some ''schema''"
  by (simp_all add: columnOf_def identifierOf_def foldName_def foldChar_def)

lemma apply_createMeta:
  "apply_stmt createMeta d =
     (if lookupTable d ''meta'' \<noteq> None then Inr d
      else if indexNamed d ''meta'' then
        Inl (SqliteError ''there is already an index named meta'')
      else Inr (d\<lparr>tables := tables d @
             [(''meta'', \<lparr>columns = [''zero'', ''schema''], rows = []\<rparr>)]\<rparr>))"
  by (simp add: createMeta_def List.map_filter_simps)

lemma run_createMeta:
  "run createMeta db =
     (case apply_stmt createMeta (content db) of
        Inl e \<Rightarrow> (Inl e, db\<lparr>executed := executed db @ [createMeta]\<rparr>)
      | Inr d \<Rightarrow> (Inr (), db\<lparr>executed := executed db @ [createMeta], content := d\<rparr>))"
  by (rule run_data) (simp add: createMeta_def)

lemma run_insertMeta:
  "run (insertMeta blob) db =
     (case apply_stmt (insertMeta blob) (content db) of
        Inl e \<Rightarrow> (Inl e, db\<lparr>executed := executed db @ [insertMeta blob]\<rparr>)
      | Inr d \<Rightarrow> (Inr (), db\<lparr>executed := executed db @ [insertMeta blob], content := d\<rparr>))"
  by (rule run_data) (simp add: insertMeta_def)

lemma pluck_get_selectMeta:
  "pluck_get selectMeta db =
     (selectFirst (content db) ''schema'' ''meta'', db\<lparr>executed := executed db @ [selectMeta]\<rparr>)"
  by (simp add: pluck_get_def selectMeta_def)

lemma selectFirst_Inr_lookup:
  "selectFirst d c t = Inr v \<Longrightarrow> lookupTable d (identifierOf t) \<noteq> None"
  by (auto simp: selectFirst_def split: option.splits)

lemma grows_selectFirst:
  "grows d d' \<Longrightarrow> selectFirst d c t = Inr v \<Longrightarrow> selectFirst d' c t = Inr v"
proof -
  assume g: "grows d d'" and s: "selectFirst d c t = Inr v"
  from s obtain tb where l: "lookupTable d (identifierOf t) = Some tb"
    by (auto simp: selectFirst_def split: option.splits)
  from grows_lookupTable [OF g l] l s show ?thesis by (simp add: selectFirst_def)
qed

lemma map_of_zip_map_fold:
  "map_of (zip (map f xs) (map (\<lambda>c. h (f c)) xs)) k =
     (if k \<in> f ` set xs then Some (h k) else None)"
  by (induction xs) auto

lemma map_of_update_matching:
  "map_of (map (\<lambda>(n, t). (f n, t))
            (map (\<lambda>(n, t). if f n = k then (n, g t) else (n, t)) xs)) k =
     map_option g (map_of (map (\<lambda>(n, t). (f n, t)) xs) k)"
  by (induction xs) auto

lemma insertMeta_selectFirst:
  assumes l: "lookupTable d ''meta'' = Some t"
    and r: "rows t = []"
    and c: "hasColumn t ''schema''"
    and a: "apply_stmt (insertMeta blob) d = Inr d'"
  shows "selectFirst d' ''schema'' ''meta'' = Inr (Some (SqlText blob))"
proof -
  let ?row = "newRow t (map identifierOf [''zero'', ''schema'']) [SqlInteger 0, SqlText blob]"
  let ?t = "t\<lparr>rows := [?row]\<rparr>"
  have hz: "hasColumn t ''zero''"
    using a l by (auto simp: insertMeta_def split: if_splits option.splits)
  have "apply_stmt (insertMeta blob) d = Inr (d\<lparr>tables :=
      map (\<lambda>(n, t'). if foldName n = ''meta''
         then (n, t'\<lparr>rows := rows t' @ [newRow t' (map identifierOf [''zero'', ''schema'']) [SqlInteger 0, SqlText blob]]\<rparr>)
         else (n, t')) (tables d)\<rparr>)"
    using l c hz by (simp add: insertMeta_def)
  with a have d': "d' = d\<lparr>tables :=
      map (\<lambda>(n, t'). if foldName n = ''meta''
         then (n, t'\<lparr>rows := rows t' @ [newRow t' (map identifierOf [''zero'', ''schema'']) [SqlInteger 0, SqlText blob]]\<rparr>)
         else (n, t')) (tables d)\<rparr>"
    by simp
  have "lookupTable d' ''meta'' =
      map_option (\<lambda>t'. t'\<lparr>rows := rows t' @ [newRow t' (map identifierOf [''zero'', ''schema'']) [SqlInteger 0, SqlText blob]]\<rparr>)
        (lookupTable d ''meta'')"
    unfolding d' lookupTable_def
    using map_of_update_matching [of foldName "''meta''" _ "tables d"] by simp
  with l r have l': "lookupTable d' ''meta'' = Some ?t" by simp
  define h where "h = (\<lambda>k. case map_of (zip (map foldName [''zero'', ''schema''])
      [SqlInteger 0, SqlText blob]) k of None \<Rightarrow> SqlNull | Some v \<Rightarrow> v)"
  have row: "?row = map (\<lambda>c. h (foldName c)) (columns t)"
    by (simp add: newRow_def h_def)
  have hs: "h ''schema'' = SqlText blob" by (simp add: h_def)
  have "map_of (zip (map foldName (columns t)) ?row) ''schema'' = Some (h ''schema'')"
    unfolding row using c by (simp add: map_of_zip_map_fold hasColumn_def)
  then have cell: "cell ?t ?row ''schema'' = SqlText blob"
    using hs by (simp add: cell_def)
  from l' c cell show ?thesis by (simp add: selectFirst_def hasColumn_def)
qed

lemma structuralTables_isCreate: "\<forall>s \<in> set structuralTables. isCreate s"
  by (simp add: structuralTables_def)

lemma createTables_follows: "follows db (snd (createTables S db))"
proof -
  obtain r db4 where r: "runAll structuralTables db = (r, db4)"
    by (cases "runAll structuralTables db")
  have f1: "follows db db4"
    using runAll_follows [OF structuralTables_isCreate, of db] r by simp
  show ?thesis
  proof (cases r)
    case (Inl e)
    with r f1 show ?thesis by (simp add: createTables_def)
  next
    case (Inr u)
    have "follows db4 (snd (createPrimitivesTables S db4))"
      by (rule createPrimitivesTables_follows)
    with f1 have "follows db (snd (createPrimitivesTables S db4))" by (rule follows_trans)
    with r Inr show ?thesis by (simp add: createTables_def)
  qed
qed

lemma initializeBody_cases:
  obtains
    (meta_fail) e where
      "apply_stmt createMeta (content db) = Inl e"
      "initializeBody blob S db = (Inl e, db\<lparr>executed := executed db @ [createMeta]\<rparr>)"
  | (select_fail) d1 e where
      "apply_stmt createMeta (content db) = Inr d1"
      "selectFirst d1 ''schema'' ''meta'' = Inl e"
      "initializeBody blob S db =
         (Inl e, db\<lparr>executed := executed db @ [createMeta, selectMeta], content := d1\<rparr>)"
  | (present) d1 v where
      "apply_stmt createMeta (content db) = Inr d1"
      "selectFirst d1 ''schema'' ''meta'' = Inr (Some v)"
      "initializeBody blob S db =
         (if v = SqlText blob then Inr () else Inl IncompatibleSchema,
          db\<lparr>executed := executed db @ [createMeta, selectMeta], content := d1\<rparr>)"
  | (insert_fail) d1 e where
      "apply_stmt createMeta (content db) = Inr d1"
      "selectFirst d1 ''schema'' ''meta'' = Inr None"
      "apply_stmt (insertMeta blob) d1 = Inl e"
      "initializeBody blob S db =
         (Inl e, db\<lparr>executed := executed db @ [createMeta, selectMeta, insertMeta blob],
                     content := d1\<rparr>)"
  | (create) d1 d3 where
      "apply_stmt createMeta (content db) = Inr d1"
      "selectFirst d1 ''schema'' ''meta'' = Inr None"
      "apply_stmt (insertMeta blob) d1 = Inr d3"
      "initializeBody blob S db =
         createTables S
           (db\<lparr>executed := executed db @ [createMeta, selectMeta, insertMeta blob],
               content := d3\<rparr>)"
proof (cases "apply_stmt createMeta (content db)")
  case (Inl e)
  then have "initializeBody blob S db = (Inl e, db\<lparr>executed := executed db @ [createMeta]\<rparr>)"
    by (simp add: initializeBody_def run_createMeta)
  with Inl show ?thesis by (rule meta_fail)
next
  case d1: (Inr d1)
  show ?thesis
  proof (cases "selectFirst d1 ''schema'' ''meta''")
    case (Inl e)
    with d1 have "initializeBody blob S db =
         (Inl e, db\<lparr>executed := executed db @ [createMeta, selectMeta], content := d1\<rparr>)"
      by (simp add: initializeBody_def run_createMeta pluck_get_selectMeta)
    with d1 Inl show ?thesis by (rule select_fail)
  next
    case ex: (Inr existingBlob)
    show ?thesis
    proof (cases existingBlob)
      case (Some v)
      with d1 ex have "initializeBody blob S db =
         (if v = SqlText blob then Inr () else Inl IncompatibleSchema,
          db\<lparr>executed := executed db @ [createMeta, selectMeta], content := d1\<rparr>)"
        by (simp add: initializeBody_def run_createMeta pluck_get_selectMeta)
      with d1 ex Some show ?thesis using present by simp
    next
      case None
      show ?thesis
      proof (cases "apply_stmt (insertMeta blob) d1")
        case (Inl e)
        with d1 ex None have "initializeBody blob S db =
         (Inl e, db\<lparr>executed := executed db @ [createMeta, selectMeta, insertMeta blob],
                     content := d1\<rparr>)"
          by (simp add: initializeBody_def run_createMeta pluck_get_selectMeta run_insertMeta)
        with d1 ex None Inl show ?thesis using insert_fail by simp
      next
        case (Inr d3)
        with d1 ex None have "initializeBody blob S db =
         createTables S
           (db\<lparr>executed := executed db @ [createMeta, selectMeta, insertMeta blob],
               content := d3\<rparr>)"
          by (simp add: initializeBody_def run_createMeta pluck_get_selectMeta run_insertMeta
              createTables_def)
        with d1 ex None Inr show ?thesis using create by simp
      qed
    qed
  qed
qed

lemma initializeBody_saved: "saved (snd (initializeBody blob S db)) = saved db"
proof (cases rule: initializeBody_cases [of db blob S])
  case (create d1 d3)
  from createTables_follows [of "db\<lparr>executed := executed db @ [createMeta, selectMeta, insertMeta blob],
               content := d3\<rparr>" S] create(4)
  show ?thesis by (simp add: follows_def)
qed simp_all

lemma initializeBody_deferred: "deferred (snd (initializeBody blob S db)) = deferred db"
proof (cases rule: initializeBody_cases [of db blob S])
  case (create d1 d3)
  from createTables_follows [of "db\<lparr>executed := executed db @ [createMeta, selectMeta, insertMeta blob],
               content := d3\<rparr>" S] create(4)
  show ?thesis by (simp add: follows_def)
qed simp_all

lemma initializeBody_executed:
  "\<exists>rest. executed (snd (initializeBody blob S db)) = executed db @ createMeta # rest"
proof (cases rule: initializeBody_cases [of db blob S])
  case (create d1 d3)
  from createTables_follows [of "db\<lparr>executed := executed db @ [createMeta, selectMeta, insertMeta blob],
               content := d3\<rparr>" S] create(4)
  show ?thesis by (auto simp add: follows_def)
qed simp_all

lemma lookupTable_append:
  "lookupTable (d\<lparr>tables := tables d @ [(n, t)]\<rparr>) k =
     (case lookupTable d k of
        Some t' \<Rightarrow> Some t'
      | None \<Rightarrow> if foldName n = foldName k then Some t else None)"
  by (simp add: lookupTable_def map_add_def split: option.splits)

lemma createMeta_lookup:
  "apply_stmt createMeta d = Inr d1 \<Longrightarrow> lookupTable d ''meta'' = None \<Longrightarrow>
     lookupTable d1 ''meta'' = Some \<lparr>columns = [''zero'', ''schema''], rows = []\<rparr>"
  by (auto simp: apply_createMeta lookupTable_append split: if_splits)

lemma createMeta_present:
  assumes "apply_stmt createMeta d = Inr d1" and "selectFirst d1 ''schema'' ''meta'' = Inr (Some v)"
  shows "d1 = d"
proof (cases "lookupTable d ''meta''")
  case None
  from createMeta_lookup [OF assms(1) None] assms(2) show ?thesis
    by (simp add: selectFirst_def split: if_splits)
next
  case (Some t)
  with assms(1) show ?thesis by (simp add: apply_createMeta)
qed

lemma initializeBody_success_blob:
  assumes "initializeBody blob S db = (Inr (), db')"
  shows "selectFirst (content db') ''schema'' ''meta'' = Inr (Some (SqlText blob))"
proof (cases rule: initializeBody_cases [of db blob S])
  case (meta_fail e)
  with assms show ?thesis by simp
next
  case (select_fail d1 e)
  with assms show ?thesis by simp
next
  case (present d1 v)
  with assms show ?thesis by (auto split: if_splits)
next
  case (insert_fail d1 e)
  with assms show ?thesis by simp
next
  case (create d1 d3)
  let ?dbI = "db\<lparr>executed := executed db @ [createMeta, selectMeta, insertMeta blob],
               content := d3\<rparr>"
  from create(2) obtain t where t: "lookupTable d1 ''meta'' = Some t" "hasColumn t ''schema''"
      "rows t = []"
    by (auto simp: selectFirst_def split: option.splits if_splits list.splits)
  have s3: "selectFirst d3 ''schema'' ''meta'' = Inr (Some (SqlText blob))"
    using t(1) t(3) t(2) create(3) by (rule insertMeta_selectFirst)
  have "follows ?dbI (snd (createTables S ?dbI))" by (rule createTables_follows)
  moreover from create(4) assms have "createTables S ?dbI = (Inr (), db')" by simp
  ultimately have "grows d3 (content db')" by (simp add: follows_def)
  from grows_selectFirst [OF this s3] show ?thesis .
qed

lemma initializeBody_present:
  assumes "selectFirst (content db) ''schema'' ''meta'' = Inr (Some v)"
  shows "initializeBody blob S db =
     (if v = SqlText blob then Inr () else Inl IncompatibleSchema,
      db\<lparr>executed := executed db @ [createMeta, selectMeta]\<rparr>)"
proof -
  from assms have "lookupTable (content db) ''meta'' \<noteq> None"
    using selectFirst_Inr_lookup [of "content db" "''schema''" "''meta''"] by simp
  then have "apply_stmt createMeta (content db) = Inr (content db)"
    by (simp add: apply_createMeta)
  with assms show ?thesis
    by (simp add: initializeBody_def run_createMeta pluck_get_selectMeta)
qed

lemma run_BEGIN: "\<not> db_inTransaction db \<Longrightarrow>
  run BEGIN db =
    (Inr (), db\<lparr>executed := executed db @ [BEGIN], saved := Some (content db), deferred := 0\<rparr>)"
  by (simp add: run_def)

lemma run_COMMIT: "db_inTransaction db \<Longrightarrow> deferred db = 0 \<Longrightarrow>
  run COMMIT db = (Inr (), db\<lparr>executed := executed db @ [COMMIT], saved := None\<rparr>)"
  by (simp add: run_def)

lemma run_COMMIT_fails: "db_inTransaction db \<Longrightarrow> deferred db \<noteq> 0 \<Longrightarrow>
  run COMMIT db =
    (Inl (SqliteError ''FOREIGN KEY constraint failed''),
     db\<lparr>executed := executed db @ [COMMIT]\<rparr>)"
  by (simp add: run_def)

lemma run_ROLLBACK: "saved db = Some d \<Longrightarrow>
  run ROLLBACK db =
    (Inr (), db\<lparr>executed := executed db @ [ROLLBACK], content := d, saved := None,
                deferred := 0\<rparr>)"
  by (simp add: run_def)

lemma inTransaction_busy:
  "db_inTransaction db \<Longrightarrow> inTransaction db fn = (Inl AlreadyInTransaction, db)"
  by (simp add: inTransaction_def)

lemma inTransaction_throw:
  assumes "\<not> db_inTransaction db" and "fn (snd (run BEGIN db)) = (Inl e, dbF)"
  shows "inTransaction db fn =
     (Inl e, if db_inTransaction dbF then snd (run ROLLBACK dbF) else dbF)"
proof (cases "saved dbF")
  case None
  with assms show ?thesis
    by (simp add: inTransaction_def run_BEGIN db_inTransaction_def)
next
  case (Some d)
  with assms show ?thesis
    by (simp add: inTransaction_def run_BEGIN run_ROLLBACK db_inTransaction_def)
qed

lemma inTransaction_return:
  assumes "\<not> db_inTransaction db" and "fn (snd (run BEGIN db)) = (Inr x, dbF)"
  shows "inTransaction db fn =
     (if \<not> db_inTransaction dbF then (Inr x, dbF)
      else if deferred dbF = 0 then (Inr x, snd (run COMMIT dbF))
      else (Inl (SqliteError ''FOREIGN KEY constraint failed''),
            snd (run ROLLBACK (snd (run COMMIT dbF)))))"
proof (cases "saved dbF")
  case None
  with assms show ?thesis
    by (simp add: inTransaction_def run_BEGIN db_inTransaction_def)
next
  case (Some d)
  then have i: "db_inTransaction dbF" by (simp add: db_inTransaction_def)
  show ?thesis
  proof (cases "deferred dbF = 0")
    case True
    with assms i show ?thesis
      by (simp add: inTransaction_def run_BEGIN run_COMMIT db_inTransaction_def)
  next
    case False
    with assms i Some show ?thesis
      by (simp add: inTransaction_def run_BEGIN run_COMMIT_fails run_ROLLBACK
          db_inTransaction_def)
  qed
qed

lemma rollback_not_inTransaction:
  "\<not> db_inTransaction (if db_inTransaction dbF then snd (run ROLLBACK dbF) else dbF)"
  by (auto simp: run_def db_inTransaction_def split: option.splits)

lemma initialize_body:
  assumes n: "\<not> db_inTransaction db"
    and b: "initializeBody (stringify S) S (snd (run BEGIN db)) = (r, dbF)"
  shows "saved dbF = Some (content db)"
    and "r = Inl e \<Longrightarrow> initialize db S =
       (Inl e, dbF\<lparr>executed := executed dbF @ [ROLLBACK], content := content db, saved := None\<rparr>)"
    and "r = Inr x \<Longrightarrow> initialize db S =
       (Inr x, dbF\<lparr>executed := executed dbF @ [COMMIT], saved := None\<rparr>)"
    and "deferred dbF = 0"
proof -
  have "saved (snd (initializeBody (stringify S) S (snd (run BEGIN db)))) =
      saved (snd (run BEGIN db))" by (rule initializeBody_saved)
  with b n show s: "saved dbF = Some (content db)" by (simp add: run_BEGIN)
  then have i: "db_inTransaction dbF" by (simp add: db_inTransaction_def)
  have "deferred (snd (initializeBody (stringify S) S (snd (run BEGIN db)))) =
      deferred (snd (run BEGIN db))" by (rule initializeBody_deferred)
  with b n show d: "deferred dbF = 0" by (simp add: run_BEGIN)
  then have z: "dbF\<lparr>executed := xs, content := c, saved := None, deferred := 0\<rparr> =
      dbF\<lparr>executed := xs, content := c, saved := None\<rparr>" for xs c
    by (cases dbF) simp
  show "r = Inl e \<Longrightarrow> initialize db S =
       (Inl e, dbF\<lparr>executed := executed dbF @ [ROLLBACK], content := content db, saved := None\<rparr>)"
    using inTransaction_throw [OF n, of "initializeBody (stringify S) S" e dbF] b i s z
    by (simp add: initialize_def run_ROLLBACK)
  show "r = Inr x \<Longrightarrow> initialize db S =
       (Inr x, dbF\<lparr>executed := executed dbF @ [COMMIT], saved := None\<rparr>)"
    using inTransaction_return [OF n, of "initializeBody (stringify S) S" x dbF] b i d
    by (simp add: initialize_def run_COMMIT)
qed

lemma initialize_failure_content:
  assumes "fst (initialize db S) = Inl e"
  shows "content (snd (initialize db S)) = content db"
proof (cases "db_inTransaction db")
  case True
  then show ?thesis by (simp add: initialize_def inTransaction_busy)
next
  case False
  obtain r dbF where b: "initializeBody (stringify S) S (snd (run BEGIN db)) = (r, dbF)"
    by (cases "initializeBody (stringify S) S (snd (run BEGIN db))")
  show ?thesis
  proof (cases r)
    case (Inl e')
    from initialize_body(2) [OF False b Inl] show ?thesis by simp
  next
    case (Inr x)
    from initialize_body(3) [OF False b Inr] assms show ?thesis by simp
  qed
qed

lemma initialize_success:
  assumes "initialize db S = (Inr (), db1)"
  shows "\<not> db_inTransaction db1"
    and "selectFirst (content db1) ''schema'' ''meta'' = Inr (Some (SqlText (stringify S)))"
proof -
  have n: "\<not> db_inTransaction db"
    using assms by (auto simp: initialize_def inTransaction_busy)
  obtain r dbF where b: "initializeBody (stringify S) S (snd (run BEGIN db)) = (r, dbF)"
    by (cases "initializeBody (stringify S) S (snd (run BEGIN db))")
  have r: "r = Inr ()"
  proof (cases r)
    case (Inl e)
    from initialize_body(2) [OF n b Inl] assms show ?thesis by simp
  next
    case (Inr x)
    then show ?thesis by simp
  qed
  from initialize_body(3) [OF n b r] assms
  have db1: "db1 = dbF\<lparr>executed := executed dbF @ [COMMIT], saved := None\<rparr>" by simp
  show "\<not> db_inTransaction db1" by (simp add: db1 db_inTransaction_def)
  from b r have "selectFirst (content dbF) ''schema'' ''meta'' =
      Inr (Some (SqlText (stringify S)))"
    by (simp add: initializeBody_success_blob)
  then show "selectFirst (content db1) ''schema'' ''meta'' =
      Inr (Some (SqlText (stringify S)))" by (simp add: db1)
qed

lemma initialize_present:
  assumes n: "\<not> db_inTransaction db"
    and p: "selectFirst (content db) ''schema'' ''meta'' = Inr (Some (SqlText blob))"
  shows "initialize db S =
     (if blob = stringify S then
        (Inr (), db\<lparr>executed := executed db @ [BEGIN, createMeta, selectMeta, COMMIT],
                    deferred := 0\<rparr>)
      else
        (Inl IncompatibleSchema,
         db\<lparr>executed := executed db @ [BEGIN, createMeta, selectMeta, ROLLBACK],
            deferred := 0\<rparr>))"
proof -
  let ?dbB = "db\<lparr>executed := executed db @ [BEGIN], saved := Some (content db),
    deferred := 0\<rparr>"
  have s: "saved db = None" using n by (simp add: db_inTransaction_def)
  have b: "initializeBody (stringify S) S (snd (run BEGIN db)) =
     (if SqlText blob = SqlText (stringify S) then Inr () else Inl IncompatibleSchema,
      ?dbB\<lparr>executed := executed ?dbB @ [createMeta, selectMeta]\<rparr>)"
    using p by (simp add: run_BEGIN [OF n] initializeBody_present)
  show ?thesis
  proof (cases "blob = stringify S")
    case True
    with b have b': "initializeBody (stringify S) S (snd (run BEGIN db)) =
       (Inr (), ?dbB\<lparr>executed := executed ?dbB @ [createMeta, selectMeta]\<rparr>)" by simp
    from initialize_body(3) [OF n b' refl] True s show ?thesis by simp
  next
    case False
    with b have b': "initializeBody (stringify S) S (snd (run BEGIN db)) =
       (Inl IncompatibleSchema, ?dbB\<lparr>executed := executed ?dbB @ [createMeta, selectMeta]\<rparr>)"
      by simp
    from initialize_body(2) [OF n b' refl] False s show ?thesis by simp
  qed
qed

lemma initialize_failure_inTransaction:
  assumes "fst (initialize db S) = Inl e"
  shows "db_inTransaction (snd (initialize db S)) = db_inTransaction db"
proof (cases "db_inTransaction db")
  case True
  then show ?thesis by (simp add: initialize_def inTransaction_busy)
next
  case False
  obtain r dbF where b: "initializeBody (stringify S) S (snd (run BEGIN db)) = (r, dbF)"
    by (cases "initializeBody (stringify S) S (snd (run BEGIN db))")
  show ?thesis
  proof (cases r)
    case (Inl e')
    from initialize_body(2) [OF False b Inl] False show ?thesis
      by (simp add: db_inTransaction_def)
  next
    case (Inr x)
    from initialize_body(3) [OF False b Inr] assms show ?thesis by simp
  qed
qed

section \<open>Claims about the decomposition and the identifier predicate\<close>

text \<open>
  C4. For a schema with distinct type names and an object type \<open>T\<close> of it with distinct
  field names, \<open>buildSchemaInfo\<close> has an entry for \<open>T\<close> whose \<open>fields\<close> is the field
  mapping of \<open>T\<close>; its three sequences of field names are pairwise disjoint, none of
  them contains an ID field, and together with the ID fields they are exactly the keys
  of the field mapping.
\<close>

theorem C4_partition_completeness:
  assumes "distinct (map fst schema)"
    and "(T, OBJECT fs) \<in> set schema"
    and "distinct (map fst fs)"
  shows "\<exists>entry. map_of (objectTypes (buildSchemaInfo schema)) T = Some entry \<and>
     entryFields entry = fs \<and>
     set (primitiveFieldNames entry) \<inter> set (linkFieldNames entry) = {} \<and>
     set (primitiveFieldNames entry) \<inter> set (connectionFieldNames entry) = {} \<and>
     set (linkFieldNames entry) \<inter> set (connectionFieldNames entry) = {} \<and>
     set (idFieldNames fs) \<inter>
       (set (primitiveFieldNames entry) \<union> set (linkFieldNames entry) \<union>
        set (connectionFieldNames entry)) = {} \<and>
     set (primitiveFieldNames entry) \<union> set (linkFieldNames entry) \<union>
       set (connectionFieldNames entry) \<union> set (idFieldNames fs) = set (map fst fs)"
proof -
  let ?P = "\<lambda>p::fieldname \<times> fieldType. snd p = PRIMITIVE"
  let ?L = "\<lambda>p::fieldname \<times> fieldType. \<exists>t. snd p = NODE t"
  let ?C = "\<lambda>p::fieldname \<times> fieldType. \<exists>t. snd p = CONNECTION t"
  let ?I = "\<lambda>p::fieldname \<times> fieldType. snd p = ID"
  have e: "map_of (objectTypes (buildSchemaInfo schema)) T = Some (objectEntry fs)"
    using assms(1,2) by (rule buildSchemaInfo_object)
  have pl: "set (map fst (filter ?P fs)) \<inter> set (map fst (filter ?L fs)) = {}"
    by (rule filter_kind_disjoint [OF assms(3)]) auto
  have pc: "set (map fst (filter ?P fs)) \<inter> set (map fst (filter ?C fs)) = {}"
    by (rule filter_kind_disjoint [OF assms(3)]) auto
  have lc: "set (map fst (filter ?L fs)) \<inter> set (map fst (filter ?C fs)) = {}"
    by (rule filter_kind_disjoint [OF assms(3)]) auto
  have ip: "set (map fst (filter ?I fs)) \<inter> set (map fst (filter ?P fs)) = {}"
    by (rule filter_kind_disjoint [OF assms(3)]) auto
  have il: "set (map fst (filter ?I fs)) \<inter> set (map fst (filter ?L fs)) = {}"
    by (rule filter_kind_disjoint [OF assms(3)]) auto
  have ic: "set (map fst (filter ?I fs)) \<inter> set (map fst (filter ?C fs)) = {}"
    by (rule filter_kind_disjoint [OF assms(3)]) auto
  have i: "set (idFieldNames fs) \<inter>
       (set (map fst (filter ?P fs)) \<union> set (map fst (filter ?L fs)) \<union>
        set (map fst (filter ?C fs))) = {}"
    unfolding idFieldNames_def using ip il ic by blast
  have u: "set (map fst (filter ?P fs)) \<union> set (map fst (filter ?L fs)) \<union>
       set (map fst (filter ?C fs)) \<union> set (idFieldNames fs) = set (map fst fs)"
    unfolding idFieldNames_def by (rule kinds_cover)
  show ?thesis
    unfolding e objectEntry_simps using pl pc lc i u
    by (intro exI [of _ "objectEntry fs"] conjI) (simp_all only: objectEntry_simps)
qed

theorem C4_partition_completeness_witness:
  "distinct (map fst issueSchema) \<and> (''Issue'', OBJECT issueFields) \<in> set issueSchema \<and>
   distinct (map fst issueFields) \<and>
   (\<exists>entry. map_of (objectTypes (buildSchemaInfo issueSchema)) ''Issue'' = Some entry \<and>
      entryFields entry = issueFields \<and>
      set (primitiveFieldNames entry) \<inter> set (linkFieldNames entry) = {} \<and>
      set (primitiveFieldNames entry) \<inter> set (connectionFieldNames entry) = {} \<and>
      set (linkFieldNames entry) \<inter> set (connectionFieldNames entry) = {} \<and>
      set (idFieldNames issueFields) \<inter>
        (set (primitiveFieldNames entry) \<union> set (linkFieldNames entry) \<union>
         set (connectionFieldNames entry)) = {} \<and>
      set (primitiveFieldNames entry) \<union> set (linkFieldNames entry) \<union>
        set (connectionFieldNames entry) \<union> set (idFieldNames issueFields) =
        set (map fst issueFields))"
proof -
  have h1: "distinct (map fst issueSchema)" by (simp add: issueSchema_def)
  have h2: "(''Issue'', OBJECT issueFields) \<in> set issueSchema" by (simp add: issueSchema_def)
  have h3: "distinct (map fst issueFields)" by (simp add: issueFields_def)
  from C4_partition_completeness [OF h1 h2 h3] h1 h2 h3 show ?thesis by blast
qed

text \<open>
  C6, as the specification states it, fails at the empty string: \<open>isSqlSafe\<close> looks for
  a character outside the class and finds none, while \<open>^[A-Za-z0-9_]+$\<close> asks for at
  least one character.
\<close>

theorem C6_isSqlSafe_empty_counterexample:
  "\<not> (isSqlSafe [] \<longleftrightarrow> spec_identifier_safe [])"
  by (simp add: spec_identifier_safe_def)

text \<open>
  C6, amended. \<open>isSqlSafe s\<close> holds if and only if \<open>s\<close> is empty or matches
  \<open>^[A-Za-z0-9_]+$\<close>, that is, if and only if \<open>s\<close> matches \<open>^[A-Za-z0-9_]*$\<close>.
\<close>

theorem C6_isSqlSafe_characterisation:
  "isSqlSafe s \<longleftrightarrow> (s = [] \<or> spec_identifier_safe s)"
  by (cases s) (simp_all add: spec_identifier_safe_def isSqlSafe_list_all)

text \<open>
  C10. \<open>buildSchemaInfo\<close> is a total function with no error result. For an object type
  whose number of ID fields is not one (in a schema with distinct type names, the type
  having distinct field names), the entry of the type exists, every ID field is in its
  \<open>fields\<close> mapping, and no ID field is in any of the three sequences.
\<close>

theorem C10_no_exactly_one_id_check:
  assumes "distinct (map fst schema)"
    and "(T, OBJECT fs) \<in> set schema"
    and "distinct (map fst fs)"
    and "length (idFieldNames fs) \<noteq> 1"
  shows "\<exists>entry. map_of (objectTypes (buildSchemaInfo schema)) T = Some entry \<and>
     (\<forall>f. (f, ID) \<in> set fs \<longrightarrow>
        map_of (entryFields entry) f = Some ID \<and>
        f \<notin> set (primitiveFieldNames entry) \<and>
        f \<notin> set (linkFieldNames entry) \<and>
        f \<notin> set (connectionFieldNames entry))"
proof -
  have e: "map_of (objectTypes (buildSchemaInfo schema)) T = Some (objectEntry fs)"
    using assms(1,2) by (rule buildSchemaInfo_object)
  have "map_of (entryFields (objectEntry fs)) f = Some ID \<and>
        f \<notin> set (primitiveFieldNames (objectEntry fs)) \<and>
        f \<notin> set (linkFieldNames (objectEntry fs)) \<and>
        f \<notin> set (connectionFieldNames (objectEntry fs))" if m: "(f, ID) \<in> set fs" for f
  proof -
    have a: "map_of fs f = Some ID" using assms(3) m by simp
    have b: "k = ID" if "(f, k) \<in> set fs" for k
      using distinct_fst_unique [OF assms(3) that m] .
    have "f \<notin> set (map fst (filter (\<lambda>p. snd p = PRIMITIVE) fs))"
      "f \<notin> set (map fst (filter (\<lambda>p. \<exists>t. snd p = NODE t) fs))"
      "f \<notin> set (map fst (filter (\<lambda>p. \<exists>t. snd p = CONNECTION t) fs))"
      using b by force+
    with a show ?thesis by (simp add: objectEntry_simps)
  qed
  with e show ?thesis by blast
qed

theorem C10_no_exactly_one_id_check_witness:
  "distinct (map fst twoIdSchema) \<and> (''User'', OBJECT twoIdFields) \<in> set twoIdSchema \<and>
   distinct (map fst twoIdFields) \<and> length (idFieldNames twoIdFields) = 2 \<and>
   (\<exists>entry. map_of (objectTypes (buildSchemaInfo twoIdSchema)) ''User'' = Some entry \<and>
     (\<forall>f. (f, ID) \<in> set twoIdFields \<longrightarrow>
        map_of (entryFields entry) f = Some ID \<and>
        f \<notin> set (primitiveFieldNames entry) \<and>
        f \<notin> set (linkFieldNames entry) \<and>
        f \<notin> set (connectionFieldNames entry))) \<and>
   (''Bot'', OBJECT [(''name'', PRIMITIVE)]) \<in> set twoIdSchema \<and>
   length (idFieldNames [(''name'', PRIMITIVE)]) = 0 \<and>
   (\<exists>entry. map_of (objectTypes (buildSchemaInfo twoIdSchema)) ''Bot'' = Some entry)"
proof -
  have h1: "distinct (map fst twoIdSchema)" by (simp add: twoIdSchema_def)
  have h2: "(''User'', OBJECT twoIdFields) \<in> set twoIdSchema" by (simp add: twoIdSchema_def)
  have h3: "distinct (map fst twoIdFields)" by (simp add: twoIdFields_def)
  have h4: "length (idFieldNames twoIdFields) = 2"
    by (simp add: twoIdFields_def idFieldNames_def)
  then have h4': "length (idFieldNames twoIdFields) \<noteq> 1" by simp
  have b2: "(''Bot'', OBJECT [(''name'', PRIMITIVE)]) \<in> set twoIdSchema"
    by (simp add: twoIdSchema_def)
  have b3: "distinct (map fst [(''name'', PRIMITIVE)])" by simp
  have b4: "length (idFieldNames [(''name'', PRIMITIVE)]) = 0" by (simp add: idFieldNames_def)
  then have b4': "length (idFieldNames [(''name'', PRIMITIVE)]) \<noteq> 1" by simp
  from C10_no_exactly_one_id_check [OF h1 b2 b3 b4']
  have b: "\<exists>entry. map_of (objectTypes (buildSchemaInfo twoIdSchema)) ''Bot'' = Some entry"
    by blast
  from C10_no_exactly_one_id_check [OF h1 h2 h3 h4'] h1 h2 h3 h4 b2 b4 b show ?thesis by blast
qed

section \<open>Properties of the table creation of initialization\<close>

lemma gather_Inr:
  "gatherPrimitiveFieldNames fs acc = Inr names \<Longrightarrow>
     names = acc @ primitiveFieldNames (objectEntry fs) \<and>
     (\<forall>f \<in> set (primitiveFieldNames (objectEntry fs)). isSqlSafe f)"
proof (induction fs acc rule: gatherPrimitiveFieldNames.induct)
  case (5 fieldname rest names')
  then show ?case by (auto simp: objectEntry_simps split: if_splits)
qed (auto simp: objectEntry_simps)

lemma gather_Inl:
  "gatherPrimitiveFieldNames fs acc = Inl e \<Longrightarrow>
     \<exists>f. e = InvalidFieldName f \<and> (f, PRIMITIVE) \<in> set fs \<and> \<not> isSqlSafe f"
proof (induction fs acc rule: gatherPrimitiveFieldNames.induct)
  case (5 fieldname rest names')
  then show ?case by (auto split: if_splits)
qed auto

lemma gather_safe:
  "\<forall>f. (f, PRIMITIVE) \<in> set fs \<longrightarrow> isSqlSafe f \<Longrightarrow>
     gatherPrimitiveFieldNames fs acc = Inr (acc @ primitiveFieldNames (objectEntry fs))"
proof (induction fs acc rule: gatherPrimitiveFieldNames.induct)
  case (5 fieldname rest names')
  then show ?case by (auto simp: objectEntry_simps)
qed (auto simp: objectEntry_simps)

lemma gather_unsafe:
  "(f, PRIMITIVE) \<in> set fs \<Longrightarrow> \<not> isSqlSafe f \<Longrightarrow>
     \<exists>e. gatherPrimitiveFieldNames fs acc = Inl e"
proof (induction fs acc rule: gatherPrimitiveFieldNames.induct)
  case (5 fieldname rest names')
  then show ?case by (auto split: if_splits)
qed auto

lemma isSqlSafe_no_quote: "isSqlSafe s \<Longrightarrow> CHR 0x22 \<notin> set s"
  by (induction s) auto

lemma takeWhile_until:
  "q \<notin> set s \<Longrightarrow> takeWhile (\<lambda>d. d \<noteq> q) (s @ [q]) = s"
  by (induction s) auto

lemma identifierOf_quoted:
  "CHR 0x22 \<notin> set s \<Longrightarrow> identifierOf (CHR 0x22 # s @ [CHR 0x22]) = s"
  by (simp add: identifierOf_def takeWhile_until)

lemma columnOf_quoted:
  "isSqlSafe f \<Longrightarrow> columnOf (CHR 0x22 # f @ [CHR 0x22]) = Some f"
  by (simp add: columnOf_def identifierOf_quoted isSqlSafe_no_quote)

lemma map_filter_append:
  "List.map_filter f (xs @ ys) = List.map_filter f xs @ List.map_filter f ys"
  by (simp add: List.map_filter_def)

lemma map_filter_columnOf_quoted:
  "\<forall>f \<in> set names. isSqlSafe f \<Longrightarrow>
     List.map_filter columnOf (map (\<lambda>fieldname. CHR 0x22 # fieldname @ [CHR 0x22]) names) =
       names"
  by (induction names) (simp_all add: List.map_filter_simps columnOf_quoted)

lemma columnOf_tableSpec_ends:
  "columnOf ''id TEXT NOT NULL PRIMARY KEY'' = Some ''id''"
  "columnOf ''FOREIGN KEY(id) REFERENCES objects(id)'' = None"
  by code_simp+

lemma columns_tableSpec:
  "\<forall>f \<in> set names. isSqlSafe f \<Longrightarrow>
     List.map_filter columnOf (tableSpecItems names) = ''id'' # names"
  by (simp add: tableSpecItems_def map_filter_append map_filter_columnOf_quoted
      List.map_filter_simps columnOf_tableSpec_ends)

lemma join_Cons: "ys \<noteq> [] \<Longrightarrow> join sep (x # ys) = x @ sep @ join sep ys"
  by (cases ys) simp_all

lemma splitItems_quoted:
  "CHR 0x22 \<notin> set f \<Longrightarrow>
     splitItems d True cur (f @ CHR 0x22 # rest) = splitItems d False (cur @ f @ [CHR 0x22]) rest"
  by (induction f arbitrary: cur) auto

lemma splitItems_names:
  "\<forall>f \<in> set names. isSqlSafe f \<Longrightarrow>
     splitItems 0 False []
       (join '', '' (map (\<lambda>fieldname. CHR 0x22 # fieldname @ [CHR 0x22]) names @
                     [''FOREIGN KEY(id) REFERENCES objects(id)''])) =
     map (\<lambda>fieldname. CHR 0x22 # fieldname @ [CHR 0x22]) names @
       [''FOREIGN KEY(id) REFERENCES objects(id)'']"
proof (induction names)
  case Nil
  show ?case by simp
next
  case (Cons f names)
  then have q: "CHR 0x22 \<notin> set f" by (simp add: isSqlSafe_no_quote)
  have "splitItems 0 False [] ((CHR 0x22 # f @ [CHR 0x22]) @ '', '' @ rest) =
      (CHR 0x22 # f @ [CHR 0x22]) # splitItems 0 False [] rest" for rest
    using splitItems_quoted [OF q, of 0 "[CHR 0x22]" "'', '' @ rest"] by simp
  with Cons show ?case by (simp add: join_Cons del: splitItems.simps)
qed

lemma splitItems_tableSpec:
  "\<forall>f \<in> set names. isSqlSafe f \<Longrightarrow>
     splitItems 0 False [] (tableSpec names) = tableSpecItems names"
proof -
  assume a: "\<forall>f \<in> set names. isSqlSafe f"
  have "splitItems 0 False [] (''id TEXT NOT NULL PRIMARY KEY'' @ '', '' @ rest) =
      ''id TEXT NOT NULL PRIMARY KEY'' # splitItems 0 False [] rest" for rest
    by simp
  with splitItems_names [OF a] show ?thesis
    by (simp add: tableSpec_def tableSpecItems_def join_Cons del: splitItems.simps)
qed

lemma takeWhile_upto:
  "q \<notin> set n \<Longrightarrow> takeWhile (\<lambda>c. c \<noteq> q) (n @ q # rest) = n"
  by (induction n) auto

lemma dropWhile_upto:
  "q \<notin> set n \<Longrightarrow> dropWhile (\<lambda>c. c \<noteq> q) (n @ q # rest) = q # rest"
  by (induction n) auto

lemma nameToken_quoted:
  "CHR 0x22 \<notin> set n \<Longrightarrow>
     nameToken (CHR 0x22 # n @ CHR 0x22 # rest) = (CHR 0x22 # n @ [CHR 0x22], rest)"
  by (simp add: nameToken_def takeWhile_upto dropWhile_upto)

lemma parseCreateTable_primitives:
  assumes "isSqlSafe T" and "\<forall>f \<in> set names. isSqlSafe f"
  shows "parseCreateTable (createTableText (''\"primitives_'' @ T @ ''\"'') (tableSpec names)) =
     Some (''\"primitives_'' @ T @ ''\"'', tableSpecItems names)"
proof -
  have q: "CHR 0x22 \<notin> set (''primitives_'' @ T)"
    using isSqlSafe_no_quote [OF assms(1)] by simp
  have ne: "tableSpec names \<noteq> []"
    by (simp add: tableSpec_def tableSpecItems_def join_Cons)
  have "nameToken (CHR 0x22 # (''primitives_'' @ T) @ CHR 0x22 # '' ('' @ tableSpec names @ '')'') =
      (CHR 0x22 # (''primitives_'' @ T) @ [CHR 0x22], '' ('' @ tableSpec names @ '')'')"
    using q by (rule nameToken_quoted)
  then show ?thesis
    using ne splitItems_tableSpec [OF assms(2)]
    by (simp add: parseCreateTable_def createTableText_def del: splitItems.simps)
qed

lemma prepareCreateTable_primitives:
  assumes "isSqlSafe T" and "list_all isSqlSafe (primitiveFieldNames (objectEntry fs))"
  shows "prepareCreateTable
       (createTableText (''\"primitives_'' @ T @ ''\"'')
          (tableSpec (primitiveFieldNames (objectEntry fs)))) =
     Inr (createPrimitives T fs)"
  using assms(2)
  by (simp add: prepareCreateTable_def createPrimitives_def list_all_iff
      parseCreateTable_primitives [OF assms(1)] del: append.simps)

lemma isSqlSafe_append: "isSqlSafe (a @ b) = (isSqlSafe a \<and> isSqlSafe b)"
  by (simp add: isSqlSafe_list_all)

lemma isSqlSafe_primitives: "isSqlSafe T \<Longrightarrow> isSqlSafe (''primitives_'' @ T)"
  by (simp add: identifierChar_def)

lemma primitivesTableName_safe:
  "isSqlSafe T \<Longrightarrow> primitivesTableName T = Inr (''\"primitives_'' @ T @ ''\"'')"
  by (simp add: primitivesTableName_def)

lemma identifierOf_primitives:
  "isSqlSafe T \<Longrightarrow> identifierOf (''\"primitives_'' @ T @ ''\"'') = ''primitives_'' @ T"
  by (simp add: identifierOf_def takeWhile_until isSqlSafe_no_quote)

lemma addColumns_Inr: "addColumns name acc cols = Inr r \<Longrightarrow> r = acc @ cols"
proof (induction cols arbitrary: acc)
  case Nil
  then show ?case by simp
next
  case (Cons c cols)
  from Cons.prems have "addColumns name (acc @ [c]) cols = Inr r"
    by (simp split: if_splits)
  from Cons.IH [OF this] show ?case by simp
qed

lemma addColumns_Inl: "addColumns name acc cols = Inl e \<Longrightarrow> \<exists>m. e = SqliteError m"
proof (induction cols arbitrary: acc)
  case Nil
  then show ?case by simp
next
  case (Cons c cols)
  show ?case
  proof (cases "2000 \<le> length acc \<or> foldName c \<in> set (map foldName acc)")
    case True
    with Cons.prems show ?thesis by (auto split: if_splits)
  next
    case False
    with Cons.prems have "addColumns name (acc @ [c]) cols = Inl e" by simp
    then show ?thesis by (rule Cons.IH)
  qed
qed

lemma apply_createPrimitives:
  assumes "isSqlSafe T" and "\<forall>f \<in> set names. isSqlSafe f"
  shows "apply_stmt (CREATE_TABLE False (''\"primitives_'' @ T @ ''\"'') (tableSpecItems names)) d =
     (if lookupTable d (''primitives_'' @ T) \<noteq> None then
        Inl (SqliteError (''table '' @ (''\"primitives_'' @ T @ ''\"'') @ '' already exists''))
      else if indexNamed d (''primitives_'' @ T) then
        Inl (SqliteError (''there is already an index named '' @ (''primitives_'' @ T)))
      else
        (case addColumns (''primitives_'' @ T) [] (''id'' # names) of
           Inl e \<Rightarrow> Inl e
         | Inr cols \<Rightarrow>
             Inr (d\<lparr>tables := tables d @
               [(''primitives_'' @ T, \<lparr>columns = cols, rows = []\<rparr>)]\<rparr>)))"
  unfolding apply_stmt.simps Let_def identifierOf_primitives [OF assms(1)]
    columns_tableSpec [OF assms(2)]
  by simp

lemma apply_stmt_error:
  "apply_stmt s d = Inl e \<Longrightarrow> (\<exists>m. e = SqliteError m) \<or> (\<exists>c t. s = SELECT c t)"
  by (cases s) (auto simp: Let_def dest: addColumns_Inl split: if_splits option.splits sum.splits)

lemma apply_create_error: "isCreate s \<Longrightarrow> apply_stmt s d = Inl e \<Longrightarrow> \<exists>m. e = SqliteError m"
  using apply_stmt_error [of s d e] by (cases s) auto

lemma gather_primitive_member:
  "f \<in> set (primitiveFieldNames (objectEntry fs)) \<longleftrightarrow> (f, PRIMITIVE) \<in> set fs"
  by (force simp: objectEntry_simps)

lemma createPrimitivesTables_object_cases:
  obtains
    (bad_type) "\<not> isSqlSafe T"
      "createPrimitivesTables ((T, OBJECT fs) # rest) db = (Inl (InvalidObjectTypeName T), db)"
  | (bad_field) f where "isSqlSafe T" "(f, PRIMITIVE) \<in> set fs" "\<not> isSqlSafe f"
      "createPrimitivesTables ((T, OBJECT fs) # rest) db = (Inl (InvalidFieldName f), db)"
  | (engine) m where "isSqlSafe T" "list_all isSqlSafe (primitiveFieldNames (objectEntry fs))"
      "apply_stmt (createPrimitives T fs) (content db) = Inl (SqliteError m)"
      "createPrimitivesTables ((T, OBJECT fs) # rest) db =
         (Inl (SqliteError m), db\<lparr>executed := executed db @ [createPrimitives T fs]\<rparr>)"
  | (created) d1 where "isSqlSafe T" "list_all isSqlSafe (primitiveFieldNames (objectEntry fs))"
      "apply_stmt (createPrimitives T fs) (content db) = Inr d1"
      "createPrimitivesTables ((T, OBJECT fs) # rest) db =
         createPrimitivesTables rest
           (db\<lparr>executed := executed db @ [createPrimitives T fs], content := d1\<rparr>)"
proof (cases "isSqlSafe T")
  case False
  then show ?thesis using bad_type by simp
next
  case safe: True
  show ?thesis
  proof (cases "gatherPrimitiveFieldNames fs []")
    case (Inl e)
    from gather_Inl [OF Inl] obtain f where
      f: "e = InvalidFieldName f" "(f, PRIMITIVE) \<in> set fs" "\<not> isSqlSafe f" by blast
    have "createPrimitivesTables ((T, OBJECT fs) # rest) db = (Inl (InvalidFieldName f), db)"
      using safe Inl f(1) by simp
    with safe f show ?thesis using bad_field by blast
  next
    case (Inr names)
    from gather_Inr [OF Inr] have
      n: "names = primitiveFieldNames (objectEntry fs)"
      and s: "list_all isSqlSafe (primitiveFieldNames (objectEntry fs))"
      by (simp_all add: list_all_iff)
    have d: "isData (createPrimitives T fs)" by (simp add: createPrimitives_def)
    have c: "isCreate (createPrimitives T fs)" by (simp add: createPrimitives_def)
    note p = prepareCreateTable_primitives [OF safe s]
    have step: "createPrimitivesTables ((T, OBJECT fs) # rest) db =
        (case run (createPrimitives T fs) db of
           (Inl e, db') \<Rightarrow> (Inl e, db')
         | (Inr u, db') \<Rightarrow> createPrimitivesTables rest db')"
      unfolding createPrimitivesTables.simps primitivesTableName_safe [OF safe] Inr n
      using safe p by simp
    show ?thesis
    proof (cases "apply_stmt (createPrimitives T fs) (content db)")
      case e: (Inl e)
      from apply_create_error [OF c e] obtain m where m: "e = SqliteError m" by blast
      have "createPrimitivesTables ((T, OBJECT fs) # rest) db =
         (Inl (SqliteError m), db\<lparr>executed := executed db @ [createPrimitives T fs]\<rparr>)"
        using e m by (simp add: step run_data [OF d] del: createPrimitivesTables.simps)
      with safe s e m show ?thesis using engine by blast
    next
      case d1: (Inr d1)
      have "createPrimitivesTables ((T, OBJECT fs) # rest) db =
         createPrimitivesTables rest
           (db\<lparr>executed := executed db @ [createPrimitives T fs], content := d1\<rparr>)"
        using d1 by (simp add: step run_data [OF d] del: createPrimitivesTables.simps)
      with safe s d1 show ?thesis using created by blast
    qed
  qed
qed

lemma apply_createPrimitives':
  assumes "isSqlSafe T" and "list_all isSqlSafe (primitiveFieldNames (objectEntry fs))"
  shows "apply_stmt (createPrimitives T fs) d =
     (if lookupTable d (''primitives_'' @ T) \<noteq> None then
        Inl (SqliteError (''table '' @ (''\"primitives_'' @ T @ ''\"'') @ '' already exists''))
      else if indexNamed d (''primitives_'' @ T) then
        Inl (SqliteError (''there is already an index named '' @ (''primitives_'' @ T)))
      else
        (case addColumns (''primitives_'' @ T) [] (''id'' # primitiveFieldNames (objectEntry fs)) of
           Inl e \<Rightarrow> Inl e
         | Inr cols \<Rightarrow>
             Inr (d\<lparr>tables := tables d @
               [(''primitives_'' @ T, \<lparr>columns = cols, rows = []\<rparr>)]\<rparr>)))"
  unfolding createPrimitives_def
  using assms(2) by (intro apply_createPrimitives [OF assms(1)]) (simp add: list_all_iff)

lemma createPrimitives_created:
  assumes "isSqlSafe T" and "list_all isSqlSafe (primitiveFieldNames (objectEntry fs))"
    and "apply_stmt (createPrimitives T fs) d = Inr d1"
  shows "d1 = d\<lparr>tables := tables d @
       [(''primitives_'' @ T,
         \<lparr>columns = ''id'' # primitiveFieldNames (objectEntry fs), rows = []\<rparr>)]\<rparr>"
proof (cases "addColumns (''primitives_'' @ T) [] (''id'' # primitiveFieldNames (objectEntry fs))")
  case (Inl e)
  with assms(3) show ?thesis
    unfolding apply_createPrimitives' [OF assms(1,2)] by (simp split: if_splits)
next
  case (Inr cols)
  from addColumns_Inr [OF Inr] have "cols = ''id'' # primitiveFieldNames (objectEntry fs)" by simp
  with Inr assms(3) show ?thesis
    unfolding apply_createPrimitives' [OF assms(1,2)] by (simp split: if_splits)
qed

lemma createPrimitivesTables_outcome:
  "(fst (createPrimitivesTables S db) = Inr () \<and> safeNames S) \<or>
   (\<exists>e. fst (createPrimitivesTables S db) = Inl e \<and> identifierUnsafeError e \<and> \<not> safeNames S) \<or>
   (\<exists>m. fst (createPrimitivesTables S db) = Inl (SqliteError m))"
proof (induction S arbitrary: db)
  case Nil
  show ?case by simp
next
  case (Cons p S)
  obtain T d where p: "p = (T, d)" by (cases p)
  show ?case
  proof (cases d)
    case (UNION cl)
    with Cons.IH [of db] show ?thesis by (simp add: p)
  next
    case (OBJECT fs)
    show ?thesis
    proof (cases rule: createPrimitivesTables_object_cases [of T fs S db])
      case bad_type
      then show ?thesis by (simp add: p OBJECT)
    next
      case (bad_field f)
      then have "\<not> list_all isSqlSafe (primitiveFieldNames (objectEntry fs))"
        using gather_primitive_member [of f fs] by (auto simp: list_all_iff)
      with bad_field show ?thesis by (simp add: p OBJECT)
    next
      case (engine m)
      then show ?thesis by (simp add: p OBJECT)
    next
      case (created d1)
      with Cons.IH [of "db\<lparr>executed := executed db @ [createPrimitives T fs], content := d1\<rparr>"]
      show ?thesis by (simp add: p OBJECT)
    qed
  qed
qed

lemma createPrimitivesTables_creates:
  assumes "createPrimitivesTables S db = (Inr (), db')"
    and "(T, OBJECT fs) \<in> set S"
  shows "lookupTable (content db') (''primitives_'' @ T) =
       Some \<lparr>columns = ''id'' # primitiveFieldNames (objectEntry fs), rows = []\<rparr> \<and>
     createPrimitives T fs \<in> set (executed db')"
  using assms
proof (induction S arbitrary: db)
  case Nil
  then show ?case by simp
next
  case (Cons p S)
  obtain T0 d where p: "p = (T0, d)" by (cases p)
  show ?case
  proof (cases d)
    case (UNION cl)
    with Cons.prems have "createPrimitivesTables S db = (Inr (), db')" "(T, OBJECT fs) \<in> set S"
      by (auto simp: p)
    then show ?thesis by (rule Cons.IH)
  next
    case (OBJECT fs0)
    show ?thesis
    proof (cases rule: createPrimitivesTables_object_cases [of T0 fs0 S db])
      case bad_type
      with Cons.prems show ?thesis by (simp add: p OBJECT)
    next
      case (bad_field f)
      with Cons.prems show ?thesis by (simp add: p OBJECT)
    next
      case (engine m)
      with Cons.prems show ?thesis by (simp add: p OBJECT)
    next
      case (created d1)
      let ?db1 = "db\<lparr>executed := executed db @ [createPrimitives T0 fs0], content := d1\<rparr>"
      from created(4) Cons.prems(1)
      have rest: "createPrimitivesTables S ?db1 = (Inr (), db')" by (simp add: p OBJECT)
      show ?thesis
      proof (cases "(T, OBJECT fs) = (T0, OBJECT fs0)")
        case True
        then have eq: "T0 = T" "fs0 = fs" by simp_all
        from created(3) have l0: "lookupTable (content db) (''primitives_'' @ T) = None"
          unfolding eq apply_createPrimitives' [OF created(1,2) [unfolded eq]]
          by (auto split: if_splits)
        have l1: "lookupTable d1 (''primitives_'' @ T) =
            Some \<lparr>columns = ''id'' # primitiveFieldNames (objectEntry fs), rows = []\<rparr>"
          unfolding createPrimitives_created [OF created(1,2,3), unfolded eq] lookupTable_append
          using l0 by simp
        have f: "follows ?db1 (snd (createPrimitivesTables S ?db1))"
          by (rule createPrimitivesTables_follows)
        with rest have g: "grows d1 (content db')"
          and e: "\<exists>r. executed db' = (executed db @ [createPrimitives T fs]) @ r"
          by (simp_all add: follows_def eq)
        from grows_lookupTable [OF g l1] e show ?thesis by auto
      next
        case False
        with Cons.prems(2) have "(T, OBJECT fs) \<in> set S" by (auto simp: p OBJECT)
        with rest show ?thesis by (rule Cons.IH)
      qed
    qed
  qed
qed






lemma structuralTables_isData: "\<forall>s \<in> set structuralTables. isData s"
  by (simp add: structuralTables_def)




lemma initialize_creates:
  assumes i: "initialize db S = (Inr (), db')"
    and fresh: "\<forall>v. selectFirst (content db) ''schema'' ''meta'' \<noteq> Inr (Some v)"
  obtains db4 dbF where "createPrimitivesTables S db4 = (Inr (), dbF)"
    and "db' = dbF\<lparr>executed := executed dbF @ [COMMIT], saved := None\<rparr>"
proof -
  have n: "\<not> db_inTransaction db"
    using i by (auto simp: initialize_def inTransaction_busy)
  let ?dbB = "snd (run BEGIN db)"
  have cB: "content ?dbB = content db" by (simp add: run_BEGIN [OF n])
  obtain r dbF where b: "initializeBody (stringify S) S ?dbB = (r, dbF)"
    by (cases "initializeBody (stringify S) S ?dbB")
  have r: "r = Inr ()"
  proof (cases r)
    case (Inl e)
    from initialize_body(2) [OF n b Inl] i show ?thesis by simp
  next
    case (Inr x)
    then show ?thesis by simp
  qed
  from initialize_body(3) [OF n b r] i
  have db': "db' = dbF\<lparr>executed := executed dbF @ [COMMIT], saved := None\<rparr>" by simp
  show ?thesis
  proof (cases rule: initializeBody_cases [of ?dbB "stringify S" S])
    case (meta_fail e)
    with b r show ?thesis by simp
  next
    case (select_fail d1 e)
    with b r show ?thesis by simp
  next
    case (present d1 v)
    from createMeta_present [OF present(1) present(2)] present(2) fresh cB
    show ?thesis by simp
  next
    case (insert_fail d1 e)
    with b r show ?thesis by simp
  next
    case (create d1 d3)
    let ?dbI = "?dbB\<lparr>executed := executed ?dbB @ [createMeta, selectMeta, insertMeta (stringify S)],
               content := d3\<rparr>"
    obtain r4 db4 where r4: "runAll structuralTables ?dbI = (r4, db4)"
      by (cases "runAll structuralTables ?dbI")
    from create(4) b r have c: "createTables S ?dbI = (Inr (), dbF)" by simp
    have "createPrimitivesTables S db4 = (Inr (), dbF)"
    proof (cases r4)
      case (Inl e)
      with c r4 show ?thesis by (simp add: createTables_def)
    next
      case (Inr u)
      with c r4 show ?thesis by (simp add: createTables_def)
    qed
    then show ?thesis using db' by (rule that)
  qed
qed

section \<open>The executed statements do not influence initialization\<close>

lemma run_sameData:
  "sameData a b \<Longrightarrow> s \<noteq> COMMIT \<Longrightarrow>
     fst (run s a) = fst (run s b) \<and> sameData (snd (run s a)) (snd (run s b))"
  by (cases s)
     (auto simp: run_def sameData_def Let_def db_inTransaction_def
       simp del: apply_stmt.simps split: option.splits sum.splits)

lemma pluck_get_sameData:
  "sameData a b \<Longrightarrow>
     fst (pluck_get s a) = fst (pluck_get s b) \<and>
     sameData (snd (pluck_get s a)) (snd (pluck_get s b))"
  by (cases s) (auto simp: pluck_get_def sameData_def Let_def)

lemma run_sameData_cases:
  assumes "sameData a b" and "s \<noteq> COMMIT"
  obtains r a1 b1 where "run s a = (r, a1)" "run s b = (r, b1)" "sameData a1 b1"
proof -
  from run_sameData [OF assms]
  have "run s a = (fst (run s a), snd (run s a))" "run s b = (fst (run s a), snd (run s b))"
    "sameData (snd (run s a)) (snd (run s b))"
    by (simp_all add: prod_eq_iff)
  then show ?thesis by (rule that)
qed

lemma runAll_sameData:
  "sameData a b \<Longrightarrow> \<forall>s \<in> set ss. isData s \<Longrightarrow>
     fst (runAll ss a) = fst (runAll ss b) \<and> sameData (snd (runAll ss a)) (snd (runAll ss b))"
proof (induction ss arbitrary: a b)
  case Nil
  then show ?case by simp
next
  case (Cons s ss)
  from Cons.prems(2) have "s \<noteq> COMMIT" by auto
  from run_sameData_cases [OF Cons.prems(1) this] obtain r a1 b1 where
    r: "run s a = (r, a1)" "run s b = (r, b1)" and d: "sameData a1 b1" by blast
  show ?case
  proof (cases r)
    case (Inl e)
    with r d show ?thesis by simp
  next
    case (Inr u)
    from Cons.prems(2) have "\<forall>s \<in> set ss. isData s" by simp
    with r Inr Cons.IH [OF d] show ?thesis by simp
  qed
qed

lemma createPrimitivesTables_sameData:
  "sameData a b \<Longrightarrow>
     fst (createPrimitivesTables S a) = fst (createPrimitivesTables S b) \<and>
     sameData (snd (createPrimitivesTables S a)) (snd (createPrimitivesTables S b))"
proof (induction S arbitrary: a b)
  case Nil
  then show ?case by simp
next
  case (Cons p S)
  obtain T d where p: "p = (T, d)" by (cases p)
  show ?case
  proof (cases d)
    case (UNION cl)
    with Cons.IH [OF Cons.prems] show ?thesis by (simp add: p)
  next
    case (OBJECT fs)
    show ?thesis
    proof (cases "isSqlSafe T")
      case False
      with Cons.prems show ?thesis by (simp add: p OBJECT)
    next
      case safe: True
      show ?thesis
      proof (cases "gatherPrimitiveFieldNames fs []")
        case (Inl e)
        with safe Cons.prems show ?thesis by (simp add: p OBJECT)
      next
        case (Inr names)
        let ?t = "createTableText (''\"primitives_'' @ T @ ''\"'') (tableSpec names)"
        show ?thesis
        proof (cases "prepareCreateTable ?t")
          case (Inl e)
          with safe Inr Cons.prems show ?thesis by (simp add: p OBJECT primitivesTableName_def)
        next
          case sql: (Inr sql)
          from prepareCreateTable_isCreate [OF sql] have "sql \<noteq> COMMIT" by auto
          from run_sameData_cases [OF Cons.prems this] obtain r a1 b1 where
            r: "run sql a = (r, a1)" "run sql b = (r, b1)" and d1: "sameData a1 b1" by blast
          show ?thesis
          proof (cases r)
            case (Inl e)
            with safe Inr sql r d1 show ?thesis by (simp add: p OBJECT primitivesTableName_def)
          next
            case u: (Inr u)
            with safe Inr sql r Cons.IH [OF d1] show ?thesis
              by (simp add: p OBJECT primitivesTableName_def)
          qed
        qed
      qed
    qed
  qed
qed

lemma initializeBody_sameData:
  assumes "sameData a b"
  shows "fst (initializeBody blob S a) = fst (initializeBody blob S b) \<and>
     sameData (snd (initializeBody blob S a)) (snd (initializeBody blob S b))"
proof -
  have "createMeta \<noteq> COMMIT" by (simp add: createMeta_def)
  from run_sameData_cases [OF assms this] obtain r1 a1 b1 where
    r1: "run createMeta a = (r1, a1)" "run createMeta b = (r1, b1)" and d1: "sameData a1 b1"
    by blast
  show ?thesis
  proof (cases r1)
    case (Inl e)
    with r1 d1 show ?thesis by (simp add: initializeBody_def)
  next
    case u1: (Inr u1)
    obtain r2 a2 where a2: "pluck_get selectMeta a1 = (r2, a2)"
      by (cases "pluck_get selectMeta a1")
    obtain r2' b2 where b2: "pluck_get selectMeta b1 = (r2', b2)"
      by (cases "pluck_get selectMeta b1")
    from pluck_get_sameData [OF d1, of selectMeta] a2 b2
    have e2: "r2' = r2" and d2: "sameData a2 b2" by simp_all
    show ?thesis
    proof (cases r2)
      case (Inl e)
      with r1 u1 a2 b2 e2 d2 show ?thesis by (simp add: initializeBody_def)
    next
      case ex: (Inr existingBlob)
      show ?thesis
      proof (cases "existingBlob = None")
        case False
        with r1 u1 a2 b2 e2 d2 ex show ?thesis by (simp add: initializeBody_def)
      next
        case True
        have "insertMeta blob \<noteq> COMMIT" by (simp add: insertMeta_def)
        from run_sameData_cases [OF d2 this] obtain r3 a3 b3 where
          r3: "run (insertMeta blob) a2 = (r3, a3)" "run (insertMeta blob) b2 = (r3, b3)"
          and d3: "sameData a3 b3" by blast
        show ?thesis
        proof (cases r3)
          case (Inl e)
          with r1 u1 a2 b2 e2 ex True r3 d3 show ?thesis by (simp add: initializeBody_def)
        next
          case u3: (Inr u3)
          obtain r4 a4 where a4: "runAll structuralTables a3 = (r4, a4)"
            by (cases "runAll structuralTables a3")
          obtain r4' b4 where b4: "runAll structuralTables b3 = (r4', b4)"
            by (cases "runAll structuralTables b3")
          from runAll_sameData [OF d3 structuralTables_isData] a4 b4
          have e4: "r4' = r4" and d4: "sameData a4 b4" by simp_all
          show ?thesis
          proof (cases r4)
            case (Inl e)
            with r1 u1 a2 b2 e2 ex True r3 u3 a4 b4 e4 d4 show ?thesis
              by (simp add: initializeBody_def)
          next
            case (Inr u4)
            with r1 u1 a2 b2 e2 ex True r3 u3 a4 b4 e4
              createPrimitivesTables_sameData [OF d4, of S]
            show ?thesis by (simp add: initializeBody_def)
          qed
        qed
      qed
    qed
  qed
qed

lemma initialize_sameData:
  assumes "sameData a b"
  shows "fst (initialize a S) = fst (initialize b S)"
proof (cases "db_inTransaction a")
  case True
  with assms have "db_inTransaction b" by (simp add: sameData_def db_inTransaction_def)
  with True show ?thesis by (simp add: initialize_def inTransaction_busy)
next
  case False
  with assms have nb: "\<not> db_inTransaction b" by (simp add: sameData_def db_inTransaction_def)
  have "sameData (snd (run BEGIN a)) (snd (run BEGIN b))"
    using run_sameData [OF assms, of BEGIN] by simp
  from initializeBody_sameData [OF this, of "stringify S" S]
  obtain r aF bF where
    ba: "initializeBody (stringify S) S (snd (run BEGIN a)) = (r, aF)"
    and bb: "initializeBody (stringify S) S (snd (run BEGIN b)) = (r, bF)"
    by (metis prod.collapse)
  show ?thesis
  proof (cases r)
    case (Inl e)
    from initialize_body(2) [OF False ba Inl] initialize_body(2) [OF nb bb Inl]
    show ?thesis by simp
  next
    case (Inr x)
    from initialize_body(3) [OF False ba Inr] initialize_body(3) [OF nb bb Inr]
    show ?thesis by simp
  qed
qed

lemma initialize_failure_sameData:
  assumes "fst (initialize db S) = Inl e"
  shows "sameData (snd (initialize db S)) db"
proof (cases "db_inTransaction db")
  case True
  then show ?thesis by (simp add: initialize_def inTransaction_busy sameData_def)
next
  case False
  obtain r dbF where b: "initializeBody (stringify S) S (snd (run BEGIN db)) = (r, dbF)"
    by (cases "initializeBody (stringify S) S (snd (run BEGIN db))")
  show ?thesis
  proof (cases r)
    case (Inl e')
    from initialize_body(2) [OF False b Inl] False show ?thesis
      by (simp add: sameData_def db_inTransaction_def)
  next
    case (Inr x)
    from initialize_body(3) [OF False b Inr] assms show ?thesis by simp
  qed
qed

lemma initialize_twice_content:
  "content (snd (initialize (snd (initialize db S)) S)) = content (snd (initialize db S))"
proof (cases "fst (initialize db S)")
  case (Inl e)
  from initialize_failure_sameData [OF Inl]
  have "fst (initialize (snd (initialize db S)) S) = fst (initialize db S)"
    by (rule initialize_sameData)
  with Inl have "fst (initialize (snd (initialize db S)) S) = Inl e" by simp
  then show ?thesis by (rule initialize_failure_content)
next
  case (Inr u)
  then have i: "initialize db S = (Inr (), snd (initialize db S))" by (simp add: prod_eq_iff)
  note s = initialize_success [OF i]
  from initialize_present [OF s(1) s(2), of S] show ?thesis by simp
qed

lemma holdsNoMetaRow_select:
  "holdsNoMetaRow d \<Longrightarrow> \<forall>v. selectFirst d ''schema'' ''meta'' \<noteq> Inr (Some v)"
  by (auto simp: holdsNoMetaRow_def)

lemma safeNames_member:
  "safeNames S \<Longrightarrow> (T, OBJECT fs) \<in> set S \<Longrightarrow>
     isSqlSafe T \<and> list_all isSqlSafe (primitiveFieldNames (objectEntry fs))"
proof (induction S)
  case Nil
  then show ?case by simp
next
  case (Cons p S)
  obtain T0 d where p: "p = (T0, d)" by (cases p)
  from Cons show ?case by (cases d) (auto simp: p)
qed

lemma join_quoted:
  "join '', '' (map (\<lambda>f. CHR 0x22 # f @ [CHR 0x22]) names @ [item]) =
     concat (map (\<lambda>f. CHR 0x22 # f @ [CHR 0x22] @ '', '') names) @ item"
  by (induction names) (simp_all add: join_Cons)

lemma tableSpec_text:
  "tableSpec names =
     ''id TEXT NOT NULL PRIMARY KEY, '' @
     concat (map (\<lambda>f. CHR 0x22 # f @ [CHR 0x22] @ '', '') names) @
     ''FOREIGN KEY(id) REFERENCES objects(id)''"
  using join_quoted [of names "''FOREIGN KEY(id) REFERENCES objects(id)''"]
  by (simp add: tableSpec_def tableSpecItems_def join_Cons)


section \<open>Claims about initialization and transactions\<close>

text \<open>
  C1, as stated, fails when the first call fails. For the schema of scenario S6 the
  first \<open>initialize\<close> on a fresh database throws and rolls back; a second
  \<open>initialize\<close>, for the empty schema, whose canonical JSON differs, then finds an
  empty database and returns normally.
\<close>

theorem C1_first_call_fails_counterexample:
  "stringify unsafeSchema \<noteq> stringify [] \<and>
   fst (initialize freshConnection unsafeSchema) =
     Inl (InvalidObjectTypeName ''Issue; DROP TABLE objects;--'') \<and>
   fst (initialize (snd (initialize freshConnection unsafeSchema)) []) = Inr ()"
  by code_simp

text \<open>
  C1, amended. If \<open>initialize\<close> has returned normally for a schema \<open>S\<close> (on a fresh
  database, or on any other), and the canonical JSON of \<open>S'\<close> differs from that of
  \<open>S\<close>, then \<open>initialize\<close> for \<open>S'\<close> fails with the mismatch error, which is none of
  the engine's errors, and the content of the database is what it was after the first
  call.
\<close>

theorem C1_strict_version_gating:
  assumes "initialize db S = (Inr (), db1)"
    and "stringify S \<noteq> stringify S'"
  shows "fst (initialize db1 S') = Inl IncompatibleSchema \<and>
     content (snd (initialize db1 S')) = content db1 \<and>
     \<not> db_inTransaction (snd (initialize db1 S')) \<and>
     IncompatibleSchema \<notin> range SqliteError"
proof -
  note s = initialize_success [OF assms(1)]
  from initialize_present [OF s(1) s(2), of S'] assms(2) show ?thesis
    using s(1) by (auto simp: db_inTransaction_def)
qed

theorem C1_strict_version_gating_witness:
  "initialize freshConnection [] = (Inr (), snd (initialize freshConnection [])) \<and>
   stringify [] \<noteq> stringify unionSchema \<and>
   fst (initialize (snd (initialize freshConnection [])) unionSchema) = Inl IncompatibleSchema \<and>
   content (snd (initialize (snd (initialize freshConnection [])) unionSchema)) =
     content (snd (initialize freshConnection []))"
proof -
  have "fst (initialize freshConnection []) = Inr ()" by code_simp
  then have h1: "initialize freshConnection [] = (Inr (), snd (initialize freshConnection []))"
    by (simp add: prod_eq_iff)
  have h2: "stringify [] \<noteq> stringify unionSchema" by code_simp
  from C1_strict_version_gating [OF h1 h2] h1 h2 show ?thesis by blast
qed

text \<open>
  C2, as stated, fails when the first call fails: for the schema of scenario S6 on a
  fresh database the second call throws as the first did. And after a first call that
  returned, the second call does execute one statement of the data definition language,
  \<open>CREATE TABLE IF NOT EXISTS meta\<close>, which has no effect.
\<close>

theorem C2_second_call_counterexample:
  "fst (initialize (snd (initialize freshConnection unsafeSchema)) unsafeSchema) =
     Inl (InvalidObjectTypeName ''Issue; DROP TABLE objects;--'') \<and>
   fst (initialize freshConnection []) = Inr () \<and>
   executed (snd (initialize (snd (initialize freshConnection [])) [])) =
     executed (snd (initialize freshConnection [])) @
     [BEGIN, CREATE_TABLE True ''meta'' [''zero INTEGER PRIMARY KEY'', ''schema TEXT NOT NULL''],
      SELECT ''schema'' ''meta'', COMMIT]"
  by code_simp

text \<open>
  C2, amended. For every schema and every database, the content of the database after
  a second \<open>initialize\<close> for the same schema is its content after the first. If the
  first call returned normally, so does the second, and it executes \<open>BEGIN\<close>,
  \<open>CREATE TABLE IF NOT EXISTS meta\<close> (which finds the table and does nothing), the
  \<open>SELECT\<close> and \<open>COMMIT\<close>, and nothing else.
\<close>

theorem C2_idempotent_reinit:
  "content (snd (initialize (snd (initialize db S)) S)) = content (snd (initialize db S)) \<and>
   (fst (initialize db S) = Inr () \<longrightarrow>
      fst (initialize (snd (initialize db S)) S) = Inr () \<and>
      \<not> db_inTransaction (snd (initialize (snd (initialize db S)) S)) \<and>
      executed (snd (initialize (snd (initialize db S)) S)) =
        executed (snd (initialize db S)) @ [BEGIN, createMeta, selectMeta, COMMIT])"
proof (intro conjI impI)
  show "content (snd (initialize (snd (initialize db S)) S)) = content (snd (initialize db S))"
    by (rule initialize_twice_content)
next
  assume "fst (initialize db S) = Inr ()"
  then have i: "initialize db S = (Inr (), snd (initialize db S))" by (simp add: prod_eq_iff)
  note s = initialize_success [OF i]
  note p = initialize_present [OF s(1) s(2), of S]
  show "fst (initialize (snd (initialize db S)) S) = Inr ()" by (simp add: p)
  show "\<not> db_inTransaction (snd (initialize (snd (initialize db S)) S))"
    using s(1) by (simp add: p db_inTransaction_def)
  show "executed (snd (initialize (snd (initialize db S)) S)) =
        executed (snd (initialize db S)) @ [BEGIN, createMeta, selectMeta, COMMIT]"
    by (simp add: p)
qed

theorem C2_idempotent_reinit_witness:
  "fst (initialize freshConnection issueSchema) = Inr () \<and>
   fst (initialize (snd (initialize freshConnection issueSchema)) issueSchema) = Inr () \<and>
   content (snd (initialize (snd (initialize freshConnection issueSchema)) issueSchema)) =
     content (snd (initialize freshConnection issueSchema))"
proof -
  have h: "fst (initialize freshConnection issueSchema) = Inr ()" by code_simp
  from C2_idempotent_reinit [of freshConnection issueSchema] h show ?thesis by blast
qed

text \<open>
  C3. If \<open>initialize\<close> fails on a fresh database, whatever the error, the content of
  the database is the empty one again: no table, no index, no \<open>meta\<close> table and so no
  \<open>meta\<close> row, and no open transaction.
\<close>

theorem C3_all_or_nothing:
  assumes "fst (initialize freshConnection S) = Inl e"
  shows "content (snd (initialize freshConnection S)) = emptyDatabase \<and>
     tables (content (snd (initialize freshConnection S))) = [] \<and>
     indices (content (snd (initialize freshConnection S))) = [] \<and>
     lookupTable (content (snd (initialize freshConnection S))) ''meta'' = None \<and>
     \<not> db_inTransaction (snd (initialize freshConnection S))"
proof -
  have c: "content (snd (initialize freshConnection S)) = emptyDatabase"
    using initialize_failure_content [OF assms] by (simp add: freshConnection_def)
  have "db_inTransaction (snd (initialize freshConnection S)) = db_inTransaction freshConnection"
    using assms by (rule initialize_failure_inTransaction)
  then have t: "\<not> db_inTransaction (snd (initialize freshConnection S))"
    by (simp add: freshConnection_def db_inTransaction_def)
  show ?thesis unfolding c using t
    by (simp add: emptyDatabase_def lookupTable_def)
qed

theorem C3_all_or_nothing_witness:
  "fst (initialize freshConnection unsafeSchema) =
     Inl (InvalidObjectTypeName ''Issue; DROP TABLE objects;--'') \<and>
   content (snd (initialize freshConnection unsafeSchema)) = emptyDatabase \<and>
   tables (content (snd (initialize freshConnection unsafeSchema))) = []"
proof -
  have h: "fst (initialize freshConnection unsafeSchema) =
     Inl (InvalidObjectTypeName ''Issue; DROP TABLE objects;--'')" by code_simp
  from C3_all_or_nothing [OF h] h show ?thesis by blast
qed

text \<open>
  C8, as stated, fails in its last part. This callback returns normally, with a value,
  and leaves a deferred constraint violated in the open transaction. \<open>COMMIT\<close> fails
  and the transaction stays open; the \<open>finally\<close> block rolls it back and the caller
  gets the error of \<open>COMMIT\<close>, not the value: nothing is committed.
\<close>

theorem C8_commit_fails_counterexample:
  "\<not> db_inTransaction freshConnection \<and>
   fst (violatingCallback (snd (run BEGIN freshConnection))) = Inr ''done'' \<and>
   db_inTransaction (snd (violatingCallback (snd (run BEGIN freshConnection)))) \<and>
   fst (inTransaction freshConnection violatingCallback) =
     Inl (SqliteError ''FOREIGN KEY constraint failed'') \<and>
   content (snd (inTransaction freshConnection violatingCallback)) = emptyDatabase \<and>
   executed (snd (inTransaction freshConnection violatingCallback)) =
     [BEGIN, createMeta, COMMIT, ROLLBACK]"
  by code_simp

text \<open>
  C8, amended. \<open>inTransaction\<close> on a connection that is in a transaction fails with
  \<open>AlreadyInTransaction\<close> and leaves the connection as it is (no \<open>BEGIN\<close> is
  executed). Otherwise the callback runs after \<open>BEGIN\<close>. If it throws, the error is the
  outcome, a transaction still open is rolled back (the content is the saved one) and
  the connection is in no transaction afterwards. If it returns, the connection is in no
  transaction afterwards either: with no transaction open on exit its value is the
  outcome; with one open, \<open>COMMIT\<close> is executed, and if it succeeds the value is the
  outcome and the content is the one the callback left, and if it fails its error is
  the outcome and the transaction is rolled back (the content is the saved one).
\<close>

theorem C8_inTransaction_contract:
  "(db_inTransaction db \<longrightarrow> inTransaction db fn = (Inl AlreadyInTransaction, db)) \<and>
   (\<forall>e dbF. \<not> db_inTransaction db \<and> fn (snd (run BEGIN db)) = (Inl e, dbF) \<longrightarrow>
      fst (inTransaction db fn) = Inl e \<and>
      \<not> db_inTransaction (snd (inTransaction db fn)) \<and>
      snd (inTransaction db fn) =
        (if db_inTransaction dbF then snd (run ROLLBACK dbF) else dbF) \<and>
      (\<forall>d. saved dbF = Some d \<longrightarrow> content (snd (inTransaction db fn)) = d)) \<and>
   (\<forall>x dbF. \<not> db_inTransaction db \<and> fn (snd (run BEGIN db)) = (Inr x, dbF) \<longrightarrow>
      \<not> db_inTransaction (snd (inTransaction db fn)) \<and>
      (\<not> db_inTransaction dbF \<longrightarrow> inTransaction db fn = (Inr x, dbF)) \<and>
      (db_inTransaction dbF \<and> fst (run COMMIT dbF) = Inr () \<longrightarrow>
         inTransaction db fn = (Inr x, snd (run COMMIT dbF)) \<and>
         content (snd (inTransaction db fn)) = content dbF) \<and>
      (\<forall>e. db_inTransaction dbF \<and> fst (run COMMIT dbF) = Inl e \<longrightarrow>
         inTransaction db fn = (Inl e, snd (run ROLLBACK (snd (run COMMIT dbF)))) \<and>
         (\<forall>d. saved dbF = Some d \<longrightarrow> content (snd (inTransaction db fn)) = d)))"
proof (intro conjI allI impI)
  assume "db_inTransaction db"
  then show "inTransaction db fn = (Inl AlreadyInTransaction, db)" by (rule inTransaction_busy)
next
  fix e dbF assume a: "\<not> db_inTransaction db \<and> fn (snd (run BEGIN db)) = (Inl e, dbF)"
  then have r: "inTransaction db fn =
     (Inl e, if db_inTransaction dbF then snd (run ROLLBACK dbF) else dbF)"
    by (simp add: inTransaction_throw)
  show "fst (inTransaction db fn) = Inl e" by (simp add: r)
  show "\<not> db_inTransaction (snd (inTransaction db fn))"
    using rollback_not_inTransaction [of dbF] by (simp add: r)
  show "snd (inTransaction db fn) =
        (if db_inTransaction dbF then snd (run ROLLBACK dbF) else dbF)" by (simp add: r)
  fix d assume "saved dbF = Some d"
  then show "content (snd (inTransaction db fn)) = d"
    by (simp add: r run_ROLLBACK db_inTransaction_def)
next
  fix x dbF assume a: "\<not> db_inTransaction db \<and> fn (snd (run BEGIN db)) = (Inr x, dbF)"
  then have r: "inTransaction db fn =
     (if \<not> db_inTransaction dbF then (Inr x, dbF)
      else if deferred dbF = 0 then (Inr x, snd (run COMMIT dbF))
      else (Inl (SqliteError ''FOREIGN KEY constraint failed''),
            snd (run ROLLBACK (snd (run COMMIT dbF)))))"
    by (simp add: inTransaction_return)
  show "\<not> db_inTransaction (snd (inTransaction db fn))"
    by (cases "saved dbF")
       (simp_all add: r db_inTransaction_def run_COMMIT run_COMMIT_fails run_ROLLBACK)
  {
    assume "\<not> db_inTransaction dbF"
    then show "inTransaction db fn = (Inr x, dbF)" by (simp add: r)
  }
  {
    assume c: "db_inTransaction dbF \<and> fst (run COMMIT dbF) = Inr ()"
    then have z: "deferred dbF = 0" using run_COMMIT_fails [of dbF] by (cases "deferred dbF = 0") auto
    with c show "inTransaction db fn = (Inr x, snd (run COMMIT dbF))" by (simp add: r)
    with c z show "content (snd (inTransaction db fn)) = content dbF"
      by (simp add: run_COMMIT)
  }
  {
    fix e' assume c: "db_inTransaction dbF \<and> fst (run COMMIT dbF) = Inl e'"
    then have z: "deferred dbF \<noteq> 0" using run_COMMIT [of dbF] by (cases "deferred dbF = 0") auto
    with c have e': "e' = SqliteError ''FOREIGN KEY constraint failed''"
      using run_COMMIT_fails [of dbF] by auto
    with c z show i: "inTransaction db fn =
        (Inl e', snd (run ROLLBACK (snd (run COMMIT dbF))))" by (simp add: r)
    fix d assume "saved dbF = Some d"
    with c z show "content (snd (inTransaction db fn)) = d"
      by (simp add: i run_COMMIT_fails run_ROLLBACK)
  }
qed

theorem C8_inTransaction_contract_witness:
  "db_inTransaction (snd (run BEGIN freshConnection)) \<and>
   inTransaction (snd (run BEGIN freshConnection)) (run createMeta) =
     (Inl AlreadyInTransaction, snd (run BEGIN freshConnection)) \<and>
   \<not> db_inTransaction freshConnection \<and>
   fst (inTransaction freshConnection
         (\<lambda>db. (Inl IncompatibleSchema :: error + unit, snd (run createMeta db)))) =
     Inl IncompatibleSchema \<and>
   \<not> db_inTransaction (snd (inTransaction freshConnection
         (\<lambda>db. (Inl IncompatibleSchema :: error + unit, snd (run createMeta db))))) \<and>
   content (snd (inTransaction freshConnection
         (\<lambda>db. (Inl IncompatibleSchema :: error + unit, snd (run createMeta db))))) =
     emptyDatabase \<and>
   inTransaction freshConnection (run createMeta) =
     (Inr (), snd (run COMMIT (snd (run createMeta (snd (run BEGIN freshConnection)))))) \<and>
   \<not> db_inTransaction (snd (inTransaction freshConnection (run createMeta))) \<and>
   content (snd (inTransaction freshConnection (run createMeta))) =
     content (snd (run createMeta (snd (run BEGIN freshConnection)))) \<and>
   fst (inTransaction freshConnection violatingCallback) =
     Inl (SqliteError ''FOREIGN KEY constraint failed'') \<and>
   \<not> db_inTransaction (snd (inTransaction freshConnection violatingCallback)) \<and>
   content (snd (inTransaction freshConnection violatingCallback)) = emptyDatabase"
proof -
  let ?busy = "snd (run BEGIN freshConnection)"
  let ?throw = "\<lambda>db. (Inl IncompatibleSchema :: error + unit, snd (run createMeta db))"
  let ?made = "snd (run createMeta ?busy)"
  let ?left = "snd (violatingCallback ?busy)"
  have n: "\<not> db_inTransaction freshConnection"
    by (simp add: freshConnection_def db_inTransaction_def)
  have b: "db_inTransaction ?busy" by (simp add: run_BEGIN [OF n] db_inTransaction_def)
  have t: "?throw ?busy = (Inl IncompatibleSchema, ?made)" by simp
  have s: "saved ?made = Some emptyDatabase" by code_simp
  have "fst (run createMeta ?busy) = Inr ()" by code_simp
  then have r: "run createMeta ?busy = (Inr (), ?made)" by (simp add: prod_eq_iff)
  have m: "db_inTransaction ?made" using s by (simp add: db_inTransaction_def)
  have c: "fst (run COMMIT ?made) = Inr ()" by code_simp
  have "fst (violatingCallback ?busy) = Inr ''done''" by code_simp
  then have v: "violatingCallback ?busy = (Inr ''done'', ?left)" by (simp add: prod_eq_iff)
  have vs: "saved ?left = Some emptyDatabase" by code_simp
  then have vi: "db_inTransaction ?left" by (simp add: db_inTransaction_def)
  have vc: "fst (run COMMIT ?left) = Inl (SqliteError ''FOREIGN KEY constraint failed'')"
    by code_simp
  from C8_inTransaction_contract [of ?busy "run createMeta"] b
  have 1: "inTransaction ?busy (run createMeta) = (Inl AlreadyInTransaction, ?busy)" by blast
  from C8_inTransaction_contract [of freshConnection ?throw] n t s
  have 2: "fst (inTransaction freshConnection ?throw) = Inl IncompatibleSchema \<and>
      \<not> db_inTransaction (snd (inTransaction freshConnection ?throw)) \<and>
      content (snd (inTransaction freshConnection ?throw)) = emptyDatabase" by blast
  from C8_inTransaction_contract [of freshConnection "run createMeta"] n r m c
  have 3: "inTransaction freshConnection (run createMeta) = (Inr (), snd (run COMMIT ?made)) \<and>
      \<not> db_inTransaction (snd (inTransaction freshConnection (run createMeta))) \<and>
      content (snd (inTransaction freshConnection (run createMeta))) = content ?made"
    by blast
  from C8_inTransaction_contract [of freshConnection violatingCallback] n v vi vc vs
  have 4: "inTransaction freshConnection violatingCallback =
        (Inl (SqliteError ''FOREIGN KEY constraint failed''),
         snd (run ROLLBACK (snd (run COMMIT ?left)))) \<and>
      \<not> db_inTransaction (snd (inTransaction freshConnection violatingCallback)) \<and>
      content (snd (inTransaction freshConnection violatingCallback)) = emptyDatabase"
    by blast
  then have 5: "fst (inTransaction freshConnection violatingCallback) =
      Inl (SqliteError ''FOREIGN KEY constraint failed'')" by simp
  from b 1 n 2 3 4 5 show ?thesis by blast
qed

text \<open>
  C5. The precondition of \<open>initialize\<close> is that the database holds no \<open>meta\<close>
  row (a fresh database, for one), or has been initialized by \<open>initialize\<close> for the
  same schema. If \<open>initialize\<close> returns normally on such a database, whether this call
  creates the tables or finds them, then for every object type \<open>T\<close> of the schema
  the table \<open>primitives_T\<close> exists and its columns are \<open>id\<close> followed by the
  primitive field names of \<open>T\<close>, each as it is spelled, and no other. The text that
  \<open>_initialize\<close> builds for the table names each primitive field between double
  quotes, after \<open>id\<close> as the primary key and before the foreign key; the engine reads
  it as the statement with these items, and the call that creates the tables executes
  this statement.
\<close>

theorem C5_column_presence:
  assumes "initialize db S = (Inr (), db')"
    and "holdsNoMetaRow (content db) \<or> previouslyInitialized S (content db)"
    and "(T, OBJECT fs) \<in> set S"
  shows "lookupTable (content db') (''primitives_'' @ T) =
       Some \<lparr>columns = ''id'' # primitiveFieldNames (objectEntry fs), rows = []\<rparr> \<and>
     createTableText (''\"primitives_'' @ T @ ''\"'')
         (tableSpec (primitiveFieldNames (objectEntry fs))) =
       ''CREATE TABLE \"primitives_'' @ T @ ''\" (id TEXT NOT NULL PRIMARY KEY, '' @
       concat (map (\<lambda>f. ''\"'' @ f @ ''\", '') (primitiveFieldNames (objectEntry fs))) @
       ''FOREIGN KEY(id) REFERENCES objects(id))'' \<and>
     prepareCreateTable
         (createTableText (''\"primitives_'' @ T @ ''\"'')
            (tableSpec (primitiveFieldNames (objectEntry fs)))) =
       Inr (CREATE_TABLE False (''\"primitives_'' @ T @ ''\"'')
              ([''id TEXT NOT NULL PRIMARY KEY''] @
               map (\<lambda>f. ''\"'' @ f @ ''\"'') (primitiveFieldNames (objectEntry fs)) @
               [''FOREIGN KEY(id) REFERENCES objects(id)''])) \<and>
     (holdsNoMetaRow (content db) \<longrightarrow>
        CREATE_TABLE False (''\"primitives_'' @ T @ ''\"'')
          ([''id TEXT NOT NULL PRIMARY KEY''] @
           map (\<lambda>f. ''\"'' @ f @ ''\"'') (primitiveFieldNames (objectEntry fs)) @
           [''FOREIGN KEY(id) REFERENCES objects(id)'']) \<in> set (executed db'))"
proof -
  let ?P = "\<lambda>d. lookupTable d (''primitives_'' @ T) =
       Some \<lparr>columns = ''id'' # primitiveFieldNames (objectEntry fs), rows = []\<rparr>"
  have created: "?P (content db1) \<and> safeNames S \<and> createPrimitives T fs \<in> set (executed db1)"
    if i: "initialize db0 S = (Inr (), db1)" and h: "holdsNoMetaRow (content db0)"
    for db0 db1
  proof -
    from initialize_creates [OF i holdsNoMetaRow_select [OF h]] obtain db4 dbF where
      c: "createPrimitivesTables S db4 = (Inr (), dbF)"
      and d: "db1 = dbF\<lparr>executed := executed dbF @ [COMMIT], saved := None\<rparr>" .
    from createPrimitivesTables_outcome [of S db4] c have "safeNames S" by simp
    with createPrimitivesTables_creates [OF c assms(3)] show ?thesis
      unfolding d by simp
  qed
  have layout: "?P (content db') \<and> safeNames S"
  proof (cases "holdsNoMetaRow (content db)")
    case True
    from created [OF assms(1) True] show ?thesis by simp
  next
    case False
    with assms(2) obtain db0 db1 where h: "holdsNoMetaRow (content db0)"
      and i: "initialize db0 S = (Inr (), db1)" and e: "content db1 = content db"
      by (auto simp: previouslyInitialized_def)
    have n: "\<not> db_inTransaction db"
      using assms(1) by (auto simp: initialize_def inTransaction_busy)
    from initialize_success(2) [OF i] e
    have "selectFirst (content db) ''schema'' ''meta'' = Inr (Some (SqlText (stringify S)))"
      by simp
    from initialize_present [OF n this, of S] assms(1) have "content db' = content db"
      by auto
    with created [OF i h] e show ?thesis by simp
  qed
  then have safe: "isSqlSafe T" "list_all isSqlSafe (primitiveFieldNames (objectEntry fs))"
    using safeNames_member [OF _ assms(3)] by simp_all
  have sqltext: "createTableText (''\"primitives_'' @ T @ ''\"'')
         (tableSpec (primitiveFieldNames (objectEntry fs))) =
       ''CREATE TABLE \"primitives_'' @ T @ ''\" (id TEXT NOT NULL PRIMARY KEY, '' @
       concat (map (\<lambda>f. ''\"'' @ f @ ''\", '') (primitiveFieldNames (objectEntry fs))) @
       ''FOREIGN KEY(id) REFERENCES objects(id))''"
    by (simp add: createTableText_def tableSpec_text)
  have stmt: "createPrimitives T fs =
      CREATE_TABLE False (''\"primitives_'' @ T @ ''\"'')
          ([''id TEXT NOT NULL PRIMARY KEY''] @
           map (\<lambda>f. ''\"'' @ f @ ''\"'') (primitiveFieldNames (objectEntry fs)) @
           [''FOREIGN KEY(id) REFERENCES objects(id)''])"
    by (simp add: createPrimitives_def tableSpecItems_def)
  note prep = prepareCreateTable_primitives [OF safe, unfolded stmt]
  have ex: "CREATE_TABLE False (''\"primitives_'' @ T @ ''\"'')
          ([''id TEXT NOT NULL PRIMARY KEY''] @
           map (\<lambda>f. ''\"'' @ f @ ''\"'') (primitiveFieldNames (objectEntry fs)) @
           [''FOREIGN KEY(id) REFERENCES objects(id)'']) \<in> set (executed db')"
    if "holdsNoMetaRow (content db)"
    using created [OF assms(1) that] unfolding stmt by blast
  from layout sqltext prep ex show ?thesis by blast
qed

theorem C5_column_presence_witness:
  "initialize freshConnection issueSchema =
     (Inr (), snd (initialize freshConnection issueSchema)) \<and>
   holdsNoMetaRow (content freshConnection) \<and>
   initialize (snd (initialize freshConnection issueSchema)) issueSchema =
     (Inr (), snd (initialize (snd (initialize freshConnection issueSchema)) issueSchema)) \<and>
   previouslyInitialized issueSchema (content (snd (initialize freshConnection issueSchema))) \<and>
   (''Issue'', OBJECT issueFields) \<in> set issueSchema \<and>
   lookupTable (content (snd (initialize freshConnection issueSchema))) ''primitives_Issue'' =
     Some \<lparr>columns = [''id'', ''title''], rows = []\<rparr> \<and>
   lookupTable
     (content (snd (initialize (snd (initialize freshConnection issueSchema)) issueSchema)))
     ''primitives_Issue'' =
     Some \<lparr>columns = [''id'', ''title''], rows = []\<rparr> \<and>
   createTableText ''\"primitives_Issue\"'' (tableSpec [''title'']) =
     ''CREATE TABLE \"primitives_Issue\" (id TEXT NOT NULL PRIMARY KEY, \"title\", FOREIGN KEY(id) REFERENCES objects(id))'' \<and>
   CREATE_TABLE False ''\"primitives_Issue\"''
     [''id TEXT NOT NULL PRIMARY KEY'', ''\"title\"'', ''FOREIGN KEY(id) REFERENCES objects(id)'']
     \<in> set (executed (snd (initialize freshConnection issueSchema)))"
proof -
  let ?db1 = "snd (initialize freshConnection issueSchema)"
  let ?db2 = "snd (initialize ?db1 issueSchema)"
  have "fst (initialize freshConnection issueSchema) = Inr ()" by code_simp
  then have h1: "initialize freshConnection issueSchema = (Inr (), ?db1)"
    by (simp add: prod_eq_iff)
  have h2: "holdsNoMetaRow (content freshConnection)" by code_simp
  have "fst (initialize ?db1 issueSchema) = Inr ()" by code_simp
  then have h4: "initialize ?db1 issueSchema = (Inr (), ?db2)" by (simp add: prod_eq_iff)
  have h5: "previouslyInitialized issueSchema (content ?db1)"
    unfolding previouslyInitialized_def using h1 h2 by blast
  have h3: "(''Issue'', OBJECT issueFields) \<in> set issueSchema" by (simp add: issueSchema_def)
  have p: "primitiveFieldNames (objectEntry issueFields) = [''title'']"
    by (simp add: objectEntry_simps issueFields_def)
  from C5_column_presence [OF h1 disjI1 [OF h2] h3] h2
  have a: "lookupTable (content ?db1) ''primitives_Issue'' =
       Some \<lparr>columns = [''id'', ''title''], rows = []\<rparr> \<and>
     createTableText ''\"primitives_Issue\"'' (tableSpec [''title'']) =
       ''CREATE TABLE \"primitives_Issue\" (id TEXT NOT NULL PRIMARY KEY, \"title\", FOREIGN KEY(id) REFERENCES objects(id))'' \<and>
     CREATE_TABLE False ''\"primitives_Issue\"''
       [''id TEXT NOT NULL PRIMARY KEY'', ''\"title\"'', ''FOREIGN KEY(id) REFERENCES objects(id)'']
       \<in> set (executed ?db1)"
    by (simp add: p)
  from C5_column_presence [OF h4 disjI2 [OF h5] h3]
  have b: "lookupTable (content ?db2) ''primitives_Issue'' =
       Some \<lparr>columns = [''id'', ''title''], rows = []\<rparr>"
    by (simp add: p)
  from h1 h2 h4 h5 h3 a b show ?thesis by blast
qed







end
